theory Spec2Isabelle
  imports Main "HOL-Library.Char_ord" "HOL-Library.List_Lexorder" "HOL-Library.AList"
begin

section \<open>Data model of the asset graph\<close>

text \<open>
  The embedding follows \<^verbatim>\<open>dagster/_core/definitions/asset_graph.py\<close>.
  An \<^verbatim>\<open>AssetKey\<close> is its path, a sequence of strings; Python compares two keys as it
  compares the paths, lexicographically, which is the order of \<open>string list\<close> here.
  An \<^verbatim>\<open>AssetCheckKey\<close> is the pair of the target asset's key and the check's name.
\<close>

type_synonym AssetKey = "string list"

datatype AssetCheckKey = AssetCheckKey (ck_asset_key: AssetKey) (ck_name: string)

datatype AssetKeyOrCheckKey = AK AssetKey | CK AssetCheckKey

text \<open>
  The classes \<^verbatim>\<open>PartitionsDefinition\<close> and \<^verbatim>\<open>PartitionMapping\<close> are imported by
  the module and not defined in it. The module compares partitions definitions with
  \<^verbatim>\<open>==\<close> and tests a mapping with \<^verbatim>\<open>isinstance\<close>; the datatypes below give the
  first a structural equality and the second its class.
\<close>

datatype PartitionsDefinition =
    DailyPartitionsDefinition string
  | HourlyPartitionsDefinition string
  | StaticPartitionsDefinition "string list"
  | OtherPartitionsDefinition string

datatype PartitionMapping =
    TimeWindowPartitionMapping
  | IdentityPartitionMapping
  | AllPartitionMapping
  | LastPartitionMapping
  | CustomPartitionMapping string

datatype AssetCheckSpec = AssetCheckSpec (spec_asset_key: AssetKey) (spec_name: string)

definition spec_key :: "AssetCheckSpec \<Rightarrow> AssetCheckKey" where
  "spec_key s = AssetCheckKey (spec_asset_key s) (spec_name s)"

subsection \<open>Node definitions and handles\<close>

text \<open>
  A \<^verbatim>\<open>NodeDefinition\<close> is an op (a leaf) or a \<^verbatim>\<open>GraphDefinition\<close>: named
  inner nodes with their definitions, output mappings (the graph's output name and the
  inner node and output it maps from), and a dependency structure that gives, for an inner
  node's output, the inner inputs that consume it.
\<close>

datatype OutputMapping =
  OutputMapping (graph_output_name: string) (maps_from_node_name: string) (maps_from_output_name: string)

datatype NodeDefinition =
    OpDefinition string "string list"
  | GraphDefinition string "(string \<times> NodeDefinition) list" "OutputMapping list"
      "((string \<times> string) \<times> (string \<times> string) list) list"

fun node_def_name :: "NodeDefinition \<Rightarrow> string" where
  "node_def_name (OpDefinition n outs) = n"
| "node_def_name (GraphDefinition n nodes maps deps) = n"

datatype NodeHandle = NodeHandle (handle_name: string) (handle_parent: "NodeHandle option")

datatype NodeInputHandle = NodeInputHandle (input_node_handle: NodeHandle) (input_name: string)

datatype NodeOutputHandle = NodeOutputHandle (output_node_handle: NodeHandle) (output_name: string)

subsection \<open>Assets definitions\<close>

text \<open>
  \<^verbatim>\<open>AssetsDefinition\<close> is imported, not defined, by the module. The record holds the
  attributes the module reads: the keys, the dependencies declared for each key, the check
  specs by output name and the check keys, the partitioning and the partition mappings, the
  subsettability flag, materializability and executability, the node definition with its
  keys by input and output name, and whether the metadata carries the mark of an
  auto-created stub. Python sets are lists here, so that a loop over them has an order.
\<close>

record AssetsDefinition =
  keys :: "AssetKey list"
  asset_deps :: "(AssetKey \<times> AssetKey list) list"
  check_specs_by_output_name :: "(string \<times> AssetCheckSpec) list"
  check_keys :: "AssetCheckKey list"
  partitions_def :: "PartitionsDefinition option"
  partition_mappings :: "(AssetKey \<times> PartitionMapping) list"
  can_subset :: bool
  is_materializable :: bool
  is_executable :: bool
  node_def :: NodeDefinition
  node_keys_by_input_name :: "(string \<times> AssetKey) list"
  node_keys_by_output_name :: "(string \<times> AssetKey) list"
  auto_created_stub :: bool

text \<open>
  Modelled from the spec: \<^verbatim>\<open>AssetsDefinition.asset_and_check_keys\<close> is not in the
  sources; it is all the asset and check identifiers of the definition.
\<close>

definition asset_and_check_keys :: "AssetsDefinition \<Rightarrow> AssetKeyOrCheckKey set" where
  "asset_and_check_keys ad = AK ` set (keys ad) \<union> CK ` set (check_keys ad)"

text \<open>
  Modelled from the spec: \<^verbatim>\<open>AssetsDefinition.dependency_keys\<close> is not in the sources;
  it is every identifier that the definition references as a dependency of one of its keys
  or as the target of one of its checks.
\<close>

definition deps_of :: "AssetsDefinition \<Rightarrow> AssetKey \<Rightarrow> AssetKey list" where
  "deps_of ad k = (case map_of (asset_deps ad) k of None \<Rightarrow> [] | Some ds \<Rightarrow> ds)"

definition dependency_keys :: "AssetsDefinition \<Rightarrow> AssetKey list" where
  "dependency_keys ad = concat (map (deps_of ad) (keys ad)) @ map ck_asset_key (check_keys ad)"

subsection \<open>Asset nodes and graphs\<close>

record AssetNode =
  node_key :: AssetKey
  parent_keys :: "AssetKey set"
  child_keys :: "AssetKey set"
  assets_def :: AssetsDefinition
  node_check_keys :: "AssetCheckKey set"

definition node_is_materializable :: "AssetNode \<Rightarrow> bool" where
  "node_is_materializable n = is_materializable (assets_def n)"

definition node_partitions_def :: "AssetNode \<Rightarrow> PartitionsDefinition option" where
  "node_partitions_def n = partitions_def (assets_def n)"

definition node_is_partitioned :: "AssetNode \<Rightarrow> bool" where
  "node_is_partitioned n = (partitions_def (assets_def n) \<noteq> None)"

definition execution_set_asset_and_check_keys :: "AssetNode \<Rightarrow> AssetKeyOrCheckKey set" where
  "execution_set_asset_and_check_keys n =
     (if can_subset (assets_def n) then {AK (node_key n)}
      else asset_and_check_keys (assets_def n))"

record AssetGraph =
  asset_nodes_by_key :: "AssetKey \<rightharpoonup> AssetNode"
  assets_defs_by_check_key :: "AssetCheckKey \<rightharpoonup> AssetsDefinition"
  asset_keys_by_node_output_handle :: "NodeOutputHandle \<rightharpoonup> AssetKey"

text \<open>
  The errors of the module: a dictionary lookup of a missing key, a node name that a graph
  does not have, an output name that a node definition does not have, and a failure of one
  of the \<^verbatim>\<open>NodeDefinition\<close> methods that are not in the sources.
\<close>

datatype error =
    KeyError
  | NoSuchNode string
  | NoSuchOutput string
  | ResolveError string

section \<open>Same-run compatibility\<close>

text \<open>
  \<^verbatim>\<open>materializable_in_same_run\<close> takes a \<^verbatim>\<open>BaseAssetGraph\<close>, a class that is not
  in the sources. Of the graph it uses \<^verbatim>\<open>get\<close> (a lookup of the node, which raises for a
  key the graph does not have), \<^verbatim>\<open>get_partition_mapping\<close>, whether the graph is a
  \<^verbatim>\<open>RemoteAssetGraph\<close>, and for such a graph \<^verbatim>\<open>get_repository_handle\<close>. The record
  takes these as they are: \<open>repository_handle\<close> is \<open>None\<close> for a graph that is not
  remote.
\<close>

record BaseAssetGraph =
  nodes_by_key :: "AssetKey \<rightharpoonup> AssetNode"
  get_partition_mapping :: "AssetKey \<Rightarrow> AssetKey \<Rightarrow> PartitionMapping"
  repository_handle :: "(AssetKey \<Rightarrow> string) option"

definition graph_get :: "BaseAssetGraph \<Rightarrow> AssetKey \<Rightarrow> error + AssetNode" where
  "graph_get g k = (case nodes_by_key g k of None \<Rightarrow> Inl KeyError | Some n \<Rightarrow> Inr n)"

definition is_simple_mapping :: "PartitionMapping \<Rightarrow> bool" where
  "is_simple_mapping m = (m = TimeWindowPartitionMapping \<or> m = IdentityPartitionMapping)"

definition materializable_in_same_run :: "BaseAssetGraph \<Rightarrow> AssetKey \<Rightarrow> AssetKey \<Rightarrow> error + bool" where
  "materializable_in_same_run asset_graph child_key parent_key =
     (case graph_get asset_graph child_key of
        Inl e \<Rightarrow> Inl e
      | Inr child_node \<Rightarrow>
          (case graph_get asset_graph parent_key of
             Inl e \<Rightarrow> Inl e
           | Inr parent_node \<Rightarrow>
               Inr (node_is_materializable child_node
                  \<and> node_is_materializable parent_node
                  \<and> node_partitions_def child_node = node_partitions_def parent_node
                  \<and> (\<not> node_is_partitioned parent_node
                     \<or> is_simple_mapping
                          (get_partition_mapping asset_graph (node_key child_node) (node_key parent_node)))
                  \<and> (case repository_handle asset_graph of
                        None \<Rightarrow> True
                      | Some handle_of \<Rightarrow> handle_of child_key = handle_of parent_key))))"

text \<open>The conditions of the spec's sentence on same-run compatibility, word for word.\<close>

definition same_run_conditions :: "BaseAssetGraph \<Rightarrow> AssetKey \<Rightarrow> AssetKey \<Rightarrow> bool" where
  "same_run_conditions g child parent =
     (\<exists>c p. nodes_by_key g child = Some c \<and> nodes_by_key g parent = Some p
        \<and> node_is_materializable c \<and> node_is_materializable p
        \<and> node_partitions_def c = node_partitions_def p
        \<and> (node_partitions_def p = None
           \<or> get_partition_mapping g (node_key c) (node_key p) = TimeWindowPartitionMapping
           \<or> get_partition_mapping g (node_key c) (node_key p) = IdentityPartitionMapping)
        \<and> (case repository_handle g of None \<Rightarrow> True | Some h \<Rightarrow> h child = h parent))"

subsection \<open>Example graphs for same-run compatibility\<close>

definition simple_assets_def :: "AssetKey \<Rightarrow> PartitionsDefinition option \<Rightarrow> AssetsDefinition" where
  "simple_assets_def k pd =
     \<lparr>keys = [k], asset_deps = [(k, [])], check_specs_by_output_name = [], check_keys = [],
      partitions_def = pd, partition_mappings = [], can_subset = False,
      is_materializable = True, is_executable = True,
      node_def = OpDefinition (concat k) [''result''],
      node_keys_by_input_name = [], node_keys_by_output_name = [(''result'', k)],
      auto_created_stub = False\<rparr>"

definition simple_node :: "AssetKey \<Rightarrow> PartitionsDefinition option \<Rightarrow> AssetNode" where
  "simple_node k pd =
     \<lparr>node_key = k, parent_keys = {}, child_keys = {}, assets_def = simple_assets_def k pd,
      node_check_keys = {}\<rparr>"

definition daily :: "PartitionsDefinition option" where
  "daily = Some (DailyPartitionsDefinition ''2024-01-01'')"

text \<open>Parent and child both partitioned by day, with a time-window mapping.\<close>

definition both_daily_graph :: BaseAssetGraph where
  "both_daily_graph =
     \<lparr>nodes_by_key = [[''child''] \<mapsto> simple_node [''child''] daily,
                       [''parent''] \<mapsto> simple_node [''parent''] daily],
      get_partition_mapping = (\<lambda>c p. TimeWindowPartitionMapping),
      repository_handle = None\<rparr>"

text \<open>The parent partitioned by day, the child unpartitioned, with a time-window mapping.\<close>

definition daily_parent_graph :: BaseAssetGraph where
  "daily_parent_graph =
     \<lparr>nodes_by_key = [[''child''] \<mapsto> simple_node [''child''] None,
                       [''parent''] \<mapsto> simple_node [''parent''] daily],
      get_partition_mapping = (\<lambda>c p. TimeWindowPartitionMapping),
      repository_handle = None\<rparr>"

section \<open>Queries on a graph\<close>

text \<open>\<^verbatim>\<open>BaseAssetGraph.get\<close> on an \<^verbatim>\<open>AssetGraph\<close>: the node of the key, or a lookup error.\<close>

definition get :: "AssetGraph \<Rightarrow> AssetKey \<Rightarrow> error + AssetNode" where
  "get g k = (case asset_nodes_by_key g k of None \<Rightarrow> Inl KeyError | Some n \<Rightarrow> Inr n)"

definition get_execution_set_asset_and_check_keys ::
  "AssetGraph \<Rightarrow> AssetKeyOrCheckKey \<Rightarrow> error + AssetKeyOrCheckKey set" where
  "get_execution_set_asset_and_check_keys g asset_or_check_key =
     (case asset_or_check_key of
        AK k \<Rightarrow>
          (case get g k of
             Inl e \<Rightarrow> Inl e
           | Inr n \<Rightarrow> Inr (execution_set_asset_and_check_keys n))
      | CK ck \<Rightarrow>
          (case assets_defs_by_check_key g ck of
             None \<Rightarrow> Inl KeyError
           | Some ad \<Rightarrow>
               Inr (if can_subset ad then {asset_or_check_key} else asset_and_check_keys ad)))"

text \<open>
  Modelled from the spec: \<^verbatim>\<open>AssetsDefinition.get_spec_for_check_key\<close> is not in the
  sources; it is the declared check spec with that key, and a lookup error when the
  definition declares none.
\<close>

definition get_spec_for_check_key :: "AssetsDefinition \<Rightarrow> AssetCheckKey \<Rightarrow> error + AssetCheckSpec" where
  "get_spec_for_check_key ad ck =
     (case find (\<lambda>s. spec_key s = ck) (map snd (check_specs_by_output_name ad)) of
        None \<Rightarrow> Inl KeyError
      | Some s \<Rightarrow> Inr s)"

definition get_spec_for_asset_check :: "AssetGraph \<Rightarrow> AssetCheckKey \<Rightarrow> error + AssetCheckSpec option" where
  "get_spec_for_asset_check g asset_check_key =
     (case assets_defs_by_check_key g asset_check_key of
        None \<Rightarrow> Inr None
      | Some ad \<Rightarrow>
          (case get_spec_for_check_key ad asset_check_key of
             Inl e \<Rightarrow> Inl e
           | Inr s \<Rightarrow> Inr (Some s)))"

section \<open>Names of the op nodes\<close>

text \<open>Python's decimal rendering of a non-negative integer, as an f-string prints it.\<close>

definition digit_char :: "nat \<Rightarrow> char" where
  "digit_char d = char_of (48 + d)"

fun str_nat :: "nat \<Rightarrow> string" where
  "str_nat n = (if n < 10 then [digit_char n] else str_nat (n div 10) @ [digit_char (n mod 10)])"

declare str_nat.simps [simp del]

text \<open>
  The loop of \<^verbatim>\<open>_build_assets_defs_by_op_node_names\<close> over the sorted executable
  definitions, with the dictionary \<^verbatim>\<open>collisions\<close> as state. It yields the assignments
  \<^verbatim>\<open>result[node_alias] = assets_def\<close> in the order the loop makes them.
\<close>

fun node_alias_assignments ::
  "(string \<rightharpoonup> nat) \<Rightarrow> AssetsDefinition list \<Rightarrow> (string \<times> AssetsDefinition) list" where
  "node_alias_assignments collisions [] = []"
| "node_alias_assignments collisions (ad # ads) =
     (let node_name = node_def_name (node_def ad) in
      case collisions node_name of
        None \<Rightarrow>
          (node_name, ad) # node_alias_assignments (collisions(node_name \<mapsto> 1)) ads
      | Some c \<Rightarrow>
          if c \<noteq> 0 then
            (node_name @ ''_'' @ str_nat (c + 1), ad)
              # node_alias_assignments (collisions(node_name \<mapsto> c + 1)) ads
          else
            (node_name, ad) # node_alias_assignments (collisions(node_name \<mapsto> 1)) ads)"

text \<open>
  A Python dictionary filled by assignments keeps the position of a key that is assigned
  again and appends a new key: \<open>AList.update\<close>.
\<close>

definition dict_of_assignments :: "('k \<times> 'v) list \<Rightarrow> ('k \<times> 'v) list" where
  "dict_of_assignments kvs = fold (\<lambda>(k, v) d. AList.update k v d) kvs []"

text \<open>
  \<^verbatim>\<open>sorted(assets_defs, key=lambda ad: sorted(ak for ak in ad.keys))\<close>: a stable sort
  of the definitions by their sorted key lists.
\<close>

definition sorted_assets_defs :: "AssetsDefinition list \<Rightarrow> AssetsDefinition list" where
  "sorted_assets_defs assets_defs = sort_key (\<lambda>ad. sort (keys ad)) assets_defs"

definition executable_sorted :: "AssetsDefinition list \<Rightarrow> AssetsDefinition list" where
  "executable_sorted assets_defs = filter is_executable (sorted_assets_defs assets_defs)"

definition build_assets_defs_by_op_node_names ::
  "AssetsDefinition list \<Rightarrow> (string \<times> AssetsDefinition) list" where
  "build_assets_defs_by_op_node_names assets_defs =
     dict_of_assignments (node_alias_assignments Map.empty (executable_sorted assets_defs))"

text \<open>
  The alias the spec describes for the occurrence number \<open>k\<close> (counted from one) of a node
  name: the bare name for the first, the name with the suffix \<open>_k\<close> for the others.
\<close>

definition suffixed_alias :: "string \<Rightarrow> nat \<Rightarrow> string" where
  "suffixed_alias node_name k = (if k \<le> 1 then node_name else node_name @ ''_'' @ str_nat k)"

definition occurrences_before :: "AssetsDefinition list \<Rightarrow> nat \<Rightarrow> nat" where
  "occurrences_before ads i =
     length (filter (\<lambda>d. node_def_name (node_def d) = node_def_name (node_def (ads ! i))) (take i ads))"

definition count_of :: "(string \<rightharpoonup> nat) \<Rightarrow> string \<Rightarrow> nat" where
  "count_of collisions n = (case collisions n of None \<Rightarrow> 0 | Some c \<Rightarrow> c)"

subsection \<open>Example definitions that share a node\<close>

text \<open>An executable definition of one asset, computed by the op or graph of the given name.\<close>

definition graph_backed_def :: "string \<Rightarrow> AssetKey \<Rightarrow> AssetsDefinition" where
  "graph_backed_def nm k = (simple_assets_def k None)\<lparr>node_def := OpDefinition nm [''result'']\<rparr>"

text \<open>
  Four definitions, given out of order: two executable ones computed by the same graph
  \<open>foo\<close>, an executable one computed by an op named \<open>foo_2\<close>, and an unexecutable one
  that also names \<open>foo\<close>.
\<close>

definition alias_clash_defs :: "AssetsDefinition list" where
  "alias_clash_defs =
     [graph_backed_def ''foo_2'' [''c''], graph_backed_def ''foo'' [''b''],
      (graph_backed_def ''foo'' [''0''])\<lparr>is_executable := False\<rparr>,
      graph_backed_def ''foo'' [''a'']]"

text \<open>A graph with one node and no check.\<close>

definition one_node_graph :: AssetGraph where
  "one_node_graph =
     \<lparr>asset_nodes_by_key = [[''a''] \<mapsto> simple_node [''a''] None],
      assets_defs_by_check_key = Map.empty,
      asset_keys_by_node_output_handle = Map.empty\<rparr>"

section \<open>Resolving an output to its destinations\<close>

text \<open>
  The methods of \<^verbatim>\<open>NodeDefinition\<close> and \<^verbatim>\<open>DependencyStructure\<close> that
  \<^verbatim>\<open>_resolve_output_to_destinations\<close> calls are not in the sources; they are lookups in
  the parts of the definition. \<^verbatim>\<open>node_named\<close> and \<^verbatim>\<open>output_def_named\<close> raise for a
  name the definition does not have; the outputs of a graph are those of its output
  mappings; an output with no consumer has the empty list of downstream inputs.
\<close>

fun node_named :: "NodeDefinition \<Rightarrow> string \<Rightarrow> error + NodeDefinition" where
  "node_named (OpDefinition n outs) nm = Inl (NoSuchNode nm)"
| "node_named (GraphDefinition n nodes maps deps) nm =
     (case map_of nodes nm of None \<Rightarrow> Inl (NoSuchNode nm) | Some d \<Rightarrow> Inr d)"

fun output_names :: "NodeDefinition \<Rightarrow> string list" where
  "output_names (OpDefinition n outs) = outs"
| "output_names (GraphDefinition n nodes maps deps) = map graph_output_name maps"

definition output_def_named :: "NodeDefinition \<Rightarrow> string \<Rightarrow> error + string" where
  "output_def_named d nm = (if nm \<in> set (output_names d) then Inr nm else Inl (NoSuchOutput nm))"

fun downstream_inputs :: "NodeDefinition \<Rightarrow> string \<Rightarrow> string \<Rightarrow> (string \<times> string) list" where
  "downstream_inputs (OpDefinition n outs) node_name out = []"
| "downstream_inputs (GraphDefinition n nodes maps deps) node_name out =
     (case map_of deps (node_name, out) of None \<Rightarrow> [] | Some ins \<Rightarrow> ins)"

definition outer_input_handles :: "NodeHandle \<Rightarrow> (string \<times> string) list \<Rightarrow> NodeInputHandle list" where
  "outer_input_handles handle ins =
     map (\<lambda>(node_name, inp). NodeInputHandle (NodeHandle node_name (Some handle)) inp) ins"

text \<open>
  \<^verbatim>\<open>_resolve_output_to_destinations\<close>, with its loop over the output mappings as the
  second function: \<open>resolve_mappings\<close> takes the mappings still to visit and the list
  \<^verbatim>\<open>all_destinations\<close> built so far.
\<close>

function resolve_output_to_destinations ::
    "string \<Rightarrow> NodeDefinition \<Rightarrow> NodeHandle \<Rightarrow> error + NodeInputHandle list"
  and resolve_mappings ::
    "string \<Rightarrow> NodeDefinition \<Rightarrow> NodeHandle \<Rightarrow> OutputMapping list \<Rightarrow> NodeInputHandle list
       \<Rightarrow> error + NodeInputHandle list" where
  "resolve_output_to_destinations out (OpDefinition n outs) handle = Inr []"
| "resolve_output_to_destinations out (GraphDefinition n nodes maps deps) handle =
     resolve_mappings out (GraphDefinition n nodes maps deps) handle maps []"
| "resolve_mappings out nd handle [] all_destinations = Inr all_destinations"
| "resolve_mappings out nd handle (mapping # rest) all_destinations =
     (if graph_output_name mapping \<noteq> out then resolve_mappings out nd handle rest all_destinations
      else
        case node_named nd (maps_from_node_name mapping) of
          Inl e \<Rightarrow> Inl e
        | Inr output_node_def \<Rightarrow>
            (case resolve_output_to_destinations (maps_from_output_name mapping) output_node_def
                    (NodeHandle (maps_from_node_name mapping) (Some handle)) of
               Inl e \<Rightarrow> Inl e
             | Inr inner \<Rightarrow>
                 (case output_def_named output_node_def (maps_from_output_name mapping) of
                    Inl e \<Rightarrow> Inl e
                  | Inr output_def \<Rightarrow>
                      resolve_mappings out nd handle rest
                        (all_destinations @ inner
                           @ outer_input_handles handle
                               (downstream_inputs nd (maps_from_node_name mapping) output_def)))))"
  by pat_completeness auto
termination
proof (relation "measures
    [\<lambda>x. case x of Inl (out, nd, handle) \<Rightarrow> size nd
                    | Inr (out, nd, handle, ms, acc) \<Rightarrow> size nd,
     \<lambda>x. case x of Inl (out, nd, handle) \<Rightarrow> Suc (length (output_names nd))
                    | Inr (out, nd, handle, ms, acc) \<Rightarrow> length ms]", goal_cases)
  case 1
  show ?case by simp
next
  case (2 out n nodes maps deps handle)
  show ?case by simp
next
  case (3 out nd handle mapping rest all_destinations)
  show ?case by simp
next
  case (4 out nd handle mapping rest all_destinations x2)
  have sub: "map_of nodes nm = Some d \<Longrightarrow> size d < Suc (size_list (size_prod (\<lambda>_. 0) size) nodes)"
    for nodes :: "(string \<times> NodeDefinition) list" and nm d
    by (induction nodes) (auto split: if_splits)
  from 4 have "size x2 < size nd"
    by (cases nd) (auto split: option.splits dest: sub)
  then show ?case by simp
next
  case (5 out nd handle mapping rest all_destinations x2 x2a x2b)
  show ?case by simp
qed

text \<open>
  The depth of the nesting of a node definition: an op has depth zero, a graph one more
  than the deepest of its inner nodes.
\<close>

fun nesting_depth :: "NodeDefinition \<Rightarrow> nat" where
  "nesting_depth (OpDefinition n outs) = 0"
| "nesting_depth (GraphDefinition n nodes maps deps) =
     Suc (fold max (map (\<lambda>(nm, d). nesting_depth d) nodes) 0)"

text \<open>
  The same function with a bound on the number of nested activations of
  \<^verbatim>\<open>_resolve_output_to_destinations\<close>: an activation needs one unit of the bound, the
  loop over the mappings runs inside it, and the result is \<open>None\<close> when the bound is
  exhausted.
\<close>

fun resolve_limited ::
    "nat \<Rightarrow> string \<Rightarrow> NodeDefinition \<Rightarrow> NodeHandle \<Rightarrow> (error + NodeInputHandle list) option"
  and resolve_mappings_limited ::
    "nat \<Rightarrow> string \<Rightarrow> NodeDefinition \<Rightarrow> NodeHandle \<Rightarrow> OutputMapping list \<Rightarrow> NodeInputHandle list
       \<Rightarrow> (error + NodeInputHandle list) option" where
  "resolve_limited 0 out nd handle = None"
| "resolve_limited (Suc limit) out (OpDefinition n outs) handle = Some (Inr [])"
| "resolve_limited (Suc limit) out (GraphDefinition n nodes maps deps) handle =
     resolve_mappings_limited limit out (GraphDefinition n nodes maps deps) handle maps []"
| "resolve_mappings_limited limit out nd handle [] all_destinations = Some (Inr all_destinations)"
| "resolve_mappings_limited limit out nd handle (mapping # rest) all_destinations =
     (if graph_output_name mapping \<noteq> out
      then resolve_mappings_limited limit out nd handle rest all_destinations
      else
        case node_named nd (maps_from_node_name mapping) of
          Inl e \<Rightarrow> Some (Inl e)
        | Inr output_node_def \<Rightarrow>
            (case resolve_limited limit (maps_from_output_name mapping) output_node_def
                    (NodeHandle (maps_from_node_name mapping) (Some handle)) of
               None \<Rightarrow> None
             | Some (Inl e) \<Rightarrow> Some (Inl e)
             | Some (Inr inner) \<Rightarrow>
                 (case output_def_named output_node_def (maps_from_output_name mapping) of
                    Inl e \<Rightarrow> Some (Inl e)
                  | Inr output_def \<Rightarrow>
                      resolve_mappings_limited limit out nd handle rest
                        (all_destinations @ inner
                           @ outer_input_handles handle
                               (downstream_inputs nd (maps_from_node_name mapping) output_def)))))"

text \<open>
  The input handles that an outer output reaches through the output mappings: for a mapping
  of that output name, the inputs of the graph's own nodes that consume the inner output it
  maps from, and what the inner output reaches inside its node.
\<close>

inductive destination :: "string \<Rightarrow> NodeDefinition \<Rightarrow> NodeHandle \<Rightarrow> NodeInputHandle \<Rightarrow> bool" where
  direct:
    "mapping \<in> set maps \<Longrightarrow> graph_output_name mapping = out \<Longrightarrow>
     map_of nodes (maps_from_node_name mapping) = Some d \<Longrightarrow>
     x \<in> set (outer_input_handles handle
            (downstream_inputs (GraphDefinition n nodes maps deps)
               (maps_from_node_name mapping) (maps_from_output_name mapping))) \<Longrightarrow>
     destination out (GraphDefinition n nodes maps deps) handle x"
| nested:
    "mapping \<in> set maps \<Longrightarrow> graph_output_name mapping = out \<Longrightarrow>
     map_of nodes (maps_from_node_name mapping) = Some d \<Longrightarrow>
     destination (maps_from_output_name mapping) d
       (NodeHandle (maps_from_node_name mapping) (Some handle)) x \<Longrightarrow>
     destination out (GraphDefinition n nodes maps deps) handle x"

definition destination_via :: "string \<Rightarrow> NodeDefinition \<Rightarrow> NodeHandle \<Rightarrow> OutputMapping \<Rightarrow> NodeInputHandle \<Rightarrow> bool" where
  "destination_via out nd handle mapping x =
     (graph_output_name mapping = out \<and>
      (\<exists>d. node_named nd (maps_from_node_name mapping) = Inr d \<and>
        (x \<in> set (outer_input_handles handle
                 (downstream_inputs nd (maps_from_node_name mapping) (maps_from_output_name mapping)))
         \<or> destination (maps_from_output_name mapping) d
              (NodeHandle (maps_from_node_name mapping) (Some handle)) x)))"

text \<open>
  The node a handle names inside an outer definition: the path of names from the outer
  handle down, followed through the inner nodes. An input handle is leaf-level when its
  node is an op.
\<close>

fun handle_path :: "NodeHandle \<Rightarrow> string list" where
  "handle_path (NodeHandle n None) = [n]"
| "handle_path (NodeHandle n (Some p)) = handle_path p @ [n]"

fun node_at :: "NodeDefinition \<Rightarrow> string list \<Rightarrow> NodeDefinition option" where
  "node_at nd [] = Some nd"
| "node_at nd (n # ns) = (case node_named nd n of Inl e \<Rightarrow> None | Inr d \<Rightarrow> node_at d ns)"

definition is_leaf_input :: "NodeDefinition \<Rightarrow> NodeInputHandle \<Rightarrow> bool" where
  "is_leaf_input outer x =
     (case node_at outer (tl (handle_path (input_node_handle x))) of
        Some (OpDefinition n outs) \<Rightarrow> True
      | _ \<Rightarrow> False)"

subsection \<open>Example graph definitions\<close>

text \<open>
  A graph \<open>G\<close> whose output comes from the inner graph \<open>B\<close>; inside \<open>B\<close> the
  output comes from the op \<open>C\<close> and is also read by the op \<open>D\<close>; in \<open>G\<close> the
  output of \<open>B\<close> is also read by the op \<open>E\<close>.
\<close>

definition inner_graph_b :: NodeDefinition where
  "inner_graph_b =
     GraphDefinition ''B''
       [(''C'', OpDefinition ''C'' [''result'']), (''D'', OpDefinition ''D'' [''result''])]
       [OutputMapping ''result'' ''C'' ''result'']
       [((''C'', ''result''), [(''D'', ''x'')])]"

definition nested_graph :: NodeDefinition where
  "nested_graph =
     GraphDefinition ''G''
       [(''B'', inner_graph_b), (''E'', OpDefinition ''E'' [''result''])]
       [OutputMapping ''result'' ''B'' ''result'']
       [((''B'', ''result''), [(''E'', ''y'')])]"

text \<open>
  A graph \<open>G\<close> whose output comes from the op \<open>A\<close> and is also read by the input
  \<open>x\<close> of the inner graph \<open>B\<close>.
\<close>

definition graph_consumer :: NodeDefinition where
  "graph_consumer =
     GraphDefinition ''G''
       [(''A'', OpDefinition ''A'' [''result'']), (''B'', inner_graph_b)]
       [OutputMapping ''result'' ''A'' ''result'']
       [((''A'', ''result''), [(''B'', ''x'')])]"

section \<open>Construction of the graph\<close>

subsection \<open>Normalization\<close>

text \<open>
  Modelled from the spec: \<^verbatim>\<open>external_asset_from_spec\<close> is not in the sources; for the
  spec with the given key and the stub mark in its metadata it yields an unexecutable
  external definition of that one key, with no dependency and no check.
\<close>

fun to_python_identifier :: "AssetKey \<Rightarrow> string" where
  "to_python_identifier [] = []"
| "to_python_identifier [p] = p"
| "to_python_identifier (p # ps) = p @ ''__'' @ to_python_identifier ps"

definition external_stub_def :: "AssetKey \<Rightarrow> AssetsDefinition" where
  "external_stub_def key =
     \<lparr>keys = [key], asset_deps = [(key, [])], check_specs_by_output_name = [], check_keys = [],
      partitions_def = None, partition_mappings = [], can_subset = False,
      is_materializable = False, is_executable = False,
      node_def = OpDefinition (to_python_identifier key) [''result''],
      node_keys_by_input_name = [], node_keys_by_output_name = [(''result'', key)],
      auto_created_stub = True\<rparr>"

text \<open>
  \<^verbatim>\<open>normalize_assets\<close>, from the list of definitions as it stands after the conversion of
  source assets and the resolution of the input keys (both done by functions that are not
  in the sources): a stub is appended for every referenced key that no definition has.
  Python iterates the set of missing keys in an order of its own; here it is the order of
  \<open>remdups\<close>.
\<close>

definition normalize_assets :: "AssetsDefinition list \<Rightarrow> AssetsDefinition list" where
  "normalize_assets assets_defs =
     (let all_keys = concat (map keys assets_defs);
          all_referenced_asset_keys = remdups (concat (map dependency_keys assets_defs))
      in assets_defs
           @ map external_stub_def (filter (\<lambda>key. key \<notin> set all_keys) all_referenced_asset_keys))"

subsection \<open>The dependency graph\<close>

record DependencyGraph =
  upstream :: "AssetKey \<rightharpoonup> AssetKey set"
  downstream :: "AssetKey \<rightharpoonup> AssetKey set"

text \<open>
  Modelled from the spec: \<^verbatim>\<open>generate_asset_dep_graph\<close> is not in the sources. The
  upstream and downstream adjacency is derived from the dependency keys that every
  definition declares for its keys (the parent-of relation), both maps from the same
  relation, with an entry for every key of a definition.
\<close>

definition parent_of :: "AssetsDefinition list \<Rightarrow> (AssetKey \<times> AssetKey) list" where
  "parent_of assets_defs =
     concat (map (\<lambda>ad. concat (map (\<lambda>key. map (\<lambda>parent. (parent, key)) (deps_of ad key)) (keys ad)))
               assets_defs)"

definition generate_asset_dep_graph :: "AssetsDefinition list \<Rightarrow> DependencyGraph" where
  "generate_asset_dep_graph assets_defs =
     \<lparr>upstream = (\<lambda>key. if key \<in> set (concat (map keys assets_defs))
                        then Some (set (map fst (filter (\<lambda>(p, c). c = key) (parent_of assets_defs))))
                        else None),
      downstream = (\<lambda>key. if key \<in> set (concat (map keys assets_defs))
                          then Some (set (map snd (filter (\<lambda>(p, c). p = key) (parent_of assets_defs))))
                          else None)\<rparr>"

subsection \<open>Nodes and check keys\<close>

text \<open>
  The first loop of \<^verbatim>\<open>from_assets\<close>: the check keys by the asset they target (a
  \<^verbatim>\<open>defaultdict(set)\<close>) and the definition of every check key.
\<close>

definition bind_check_key ::
  "AssetsDefinition \<Rightarrow> AssetCheckKey
     \<Rightarrow> (AssetKey \<Rightarrow> AssetCheckKey set) \<times> (AssetCheckKey \<rightharpoonup> AssetsDefinition)
     \<Rightarrow> (AssetKey \<Rightarrow> AssetCheckKey set) \<times> (AssetCheckKey \<rightharpoonup> AssetsDefinition)" where
  "bind_check_key ad ck st =
     ((fst st)(ck_asset_key ck := insert ck (fst st (ck_asset_key ck))), (snd st)(ck \<mapsto> ad))"

definition bind_check_keys ::
  "AssetsDefinition list
     \<Rightarrow> (AssetKey \<Rightarrow> AssetCheckKey set) \<times> (AssetCheckKey \<rightharpoonup> AssetsDefinition)" where
  "bind_check_keys assets_defs =
     fold (\<lambda>ad st. fold (bind_check_key ad) (check_keys ad) st) assets_defs (\<lambda>key. {}, Map.empty)"

text \<open>
  The dictionary comprehension that builds the nodes, over the pairs of a definition and
  one of its keys; a lookup in the dependency graph raises for a key it does not have.
\<close>

fun build_asset_nodes ::
  "DependencyGraph \<Rightarrow> (AssetKey \<Rightarrow> AssetCheckKey set) \<Rightarrow> (AssetsDefinition \<times> AssetKey) list
     \<Rightarrow> (AssetKey \<rightharpoonup> AssetNode) \<Rightarrow> error + (AssetKey \<rightharpoonup> AssetNode)" where
  "build_asset_nodes dep_graph check_keys_by_asset_key [] asset_nodes = Inr asset_nodes"
| "build_asset_nodes dep_graph check_keys_by_asset_key ((ad, key) # rest) asset_nodes =
     (case upstream dep_graph key of
        None \<Rightarrow> Inl KeyError
      | Some parents \<Rightarrow>
          (case downstream dep_graph key of
             None \<Rightarrow> Inl KeyError
           | Some children \<Rightarrow>
               build_asset_nodes dep_graph check_keys_by_asset_key rest
                 (asset_nodes(key \<mapsto>
                    \<lparr>node_key = key, parent_keys = parents, child_keys = children,
                     assets_def = ad, node_check_keys = check_keys_by_asset_key key\<rparr>))))"

definition keys_with_defs :: "AssetsDefinition list \<Rightarrow> (AssetsDefinition \<times> AssetKey) list" where
  "keys_with_defs assets_defs = concat (map (\<lambda>ad. map (\<lambda>key. (ad, key)) (keys ad)) assets_defs)"

subsection \<open>Flattening of the op nodes\<close>

text \<open>
  \<^verbatim>\<open>NodeDefinition.resolve_input_to_destinations\<close> and
  \<^verbatim>\<open>NodeDefinition.resolve_output_to_origin\<close> are not in the sources; the construction
  takes them as parameters. Each may raise; \<open>resolve_output_to_origin\<close> yields the name of
  the inner output definition and the inner node handle, which may be \<^verbatim>\<open>None\<close>.
\<close>

record NodeMethods =
  resolve_input_to_destinations :: "NodeDefinition \<Rightarrow> NodeInputHandle \<Rightarrow> error + NodeInputHandle list"
  resolve_output_to_origin :: "NodeDefinition \<Rightarrow> string \<Rightarrow> NodeHandle \<Rightarrow> error + (string \<times> NodeHandle option)"

text \<open>A loop that runs its body on every element and stops at the first that raises.\<close>

fun for_each :: "('a \<Rightarrow> error + 'b) \<Rightarrow> 'a list \<Rightarrow> error + 'b list" where
  "for_each body [] = Inr []"
| "for_each body (x # xs) =
     (case body x of
        Inl e \<Rightarrow> Inl e
      | Inr y \<Rightarrow> (case for_each body xs of Inl e \<Rightarrow> Inl e | Inr ys \<Rightarrow> Inr (y # ys)))"

text \<open>
  The leaf output handle of an outer output: \<^verbatim>\<open>resolve_output_to_origin\<close> and
  \<^verbatim>\<open>check.not_none\<close> on the inner node handle.
\<close>

definition origin_handle ::
  "NodeMethods \<Rightarrow> NodeDefinition \<Rightarrow> string \<Rightarrow> NodeHandle \<Rightarrow> error + NodeOutputHandle" where
  "origin_handle M nd out outer_node_handle =
     (case resolve_output_to_origin M nd out outer_node_handle of
        Inl e \<Rightarrow> Inl e
      | Inr (inner_output_name, None) \<Rightarrow> Inl (ResolveError ''not_none'')
      | Inr (inner_output_name, Some inner_node_handle) \<Rightarrow>
          Inr (NodeOutputHandle inner_node_handle inner_output_name))"

text \<open>
  The body of the loop over \<^verbatim>\<open>assets_defs_by_op_node_names.items()\<close>. Of the
  dictionaries it fills, the graph keeps \<^verbatim>\<open>asset_key_by_output\<close> and
  \<^verbatim>\<open>assets_defs_by_check_key\<close>, which are the state here; the others are local to
  \<^verbatim>\<open>from_assets\<close> and dropped, but the calls that fill them can raise.
\<close>

definition flatten_node ::
  "NodeMethods \<Rightarrow> string \<times> AssetsDefinition
     \<Rightarrow> (NodeOutputHandle \<rightharpoonup> AssetKey) \<times> (AssetCheckKey \<rightharpoonup> AssetsDefinition)
     \<Rightarrow> error + (NodeOutputHandle \<rightharpoonup> AssetKey) \<times> (AssetCheckKey \<rightharpoonup> AssetsDefinition)" where
  "flatten_node M entry st =
     (let op_node_name = fst entry; assets_def = snd entry;
          outer_node_handle = NodeHandle op_node_name None in
      case for_each
             (\<lambda>(input_name, input_asset_key).
                resolve_input_to_destinations M (node_def assets_def)
                  (NodeInputHandle outer_node_handle input_name))
             (node_keys_by_input_name assets_def) of
        Inl e \<Rightarrow> Inl e
      | Inr inner_input_handles \<Rightarrow>
          (case for_each
                  (\<lambda>(out, asset_key).
                     case origin_handle M (node_def assets_def) out outer_node_handle of
                       Inl e \<Rightarrow> Inl e
                     | Inr inner_output_handle \<Rightarrow>
                         (case resolve_output_to_destinations out (node_def assets_def)
                                 outer_node_handle of
                            Inl e \<Rightarrow> Inl e
                          | Inr destinations \<Rightarrow> Inr (inner_output_handle, asset_key)))
                  (node_keys_by_output_name assets_def) of
             Inl e \<Rightarrow> Inl e
           | Inr outputs \<Rightarrow>
               if check_specs_by_output_name assets_def \<noteq> [] then
                 (case for_each
                         (\<lambda>(out, check_spec).
                            origin_handle M (node_def assets_def) out outer_node_handle)
                         (check_specs_by_output_name assets_def) of
                    Inl e \<Rightarrow> Inl e
                  | Inr check_output_handles \<Rightarrow>
                      Inr (fold (\<lambda>(h, k) m. m(h \<mapsto> k)) outputs (fst st),
                           fold (\<lambda>k m. m(k \<mapsto> assets_def)) (check_keys assets_def) (snd st)))
               else Inr (fold (\<lambda>(h, k) m. m(h \<mapsto> k)) outputs (fst st), snd st)))"

fun flatten_nodes ::
  "NodeMethods \<Rightarrow> (string \<times> AssetsDefinition) list
     \<Rightarrow> (NodeOutputHandle \<rightharpoonup> AssetKey) \<times> (AssetCheckKey \<rightharpoonup> AssetsDefinition)
     \<Rightarrow> error + (NodeOutputHandle \<rightharpoonup> AssetKey) \<times> (AssetCheckKey \<rightharpoonup> AssetsDefinition)" where
  "flatten_nodes M [] st = Inr st"
| "flatten_nodes M (entry # rest) st =
     (case flatten_node M entry st of Inl e \<Rightarrow> Inl e | Inr st' \<Rightarrow> flatten_nodes M rest st')"

subsection \<open>\<^verbatim>\<open>from_assets\<close>\<close>

definition from_assets :: "NodeMethods \<Rightarrow> AssetsDefinition list \<Rightarrow> error + AssetGraph" where
  "from_assets M assets =
     (let assets_defs = normalize_assets assets;
          dep_graph = generate_asset_dep_graph assets_defs;
          check_keys_by_asset_key = fst (bind_check_keys assets_defs)
      in case build_asset_nodes dep_graph check_keys_by_asset_key (keys_with_defs assets_defs)
                Map.empty of
           Inl e \<Rightarrow> Inl e
         | Inr asset_nodes \<Rightarrow>
             (case flatten_nodes M (build_assets_defs_by_op_node_names assets_defs)
                     (Map.empty, Map.empty) of
                Inl e \<Rightarrow> Inl e
              | Inr st \<Rightarrow>
                  Inr \<lparr>asset_nodes_by_key = asset_nodes,
                       assets_defs_by_check_key = snd st,
                       asset_keys_by_node_output_handle = fst st\<rparr>))"

text \<open>
  The definition that a graph has for an identifier: the definition of the node of an asset
  key, the definition bound to a check key.
\<close>

definition owning_definition :: "AssetGraph \<Rightarrow> AssetKeyOrCheckKey \<Rightarrow> AssetsDefinition option" where
  "owning_definition g x =
     (case x of
        AK k \<Rightarrow> map_option assets_def (asset_nodes_by_key g k)
      | CK ck \<Rightarrow> assets_defs_by_check_key g ck)"

text \<open>
  The methods on an op, for the examples: an op's output is its own origin, and an op's
  input is its own destination.
\<close>

definition op_methods :: NodeMethods where
  "op_methods =
     \<lparr>resolve_input_to_destinations = (\<lambda>nd h. Inr [h]),
      resolve_output_to_origin = (\<lambda>nd out h. Inr (out, Some h))\<rparr>"

subsection \<open>Example definitions for the construction\<close>

text \<open>An asset \<open>b\<close> that depends on an asset \<open>a\<close> for which no definition is given.\<close>

definition downstream_def :: AssetsDefinition where
  "downstream_def =
     \<lparr>keys = [[''b'']], asset_deps = [([''b''], [[''a'']])], check_specs_by_output_name = [],
      check_keys = [], partitions_def = None, partition_mappings = [], can_subset = False,
      is_materializable = True, is_executable = True,
      node_def = OpDefinition ''b'' [''result''],
      node_keys_by_input_name = [(''a'', [''a''])], node_keys_by_output_name = [(''result'', [''b''])],
      auto_created_stub = False\<rparr>"

text \<open>
  A definition that cannot be subset and produces the assets \<open>a\<close> and \<open>b\<close> and a
  check of \<open>a\<close>.
\<close>

definition multi_def :: AssetsDefinition where
  "multi_def =
     \<lparr>keys = [[''a''], [''b'']], asset_deps = [([''a''], []), ([''b''], [[''a'']])],
      check_specs_by_output_name = [(''a_fresh'', AssetCheckSpec [''a''] ''fresh'')],
      check_keys = [AssetCheckKey [''a''] ''fresh''], partitions_def = None,
      partition_mappings = [], can_subset = False,
      is_materializable = True, is_executable = True,
      node_def = OpDefinition ''multi'' [''a'', ''b'', ''a_fresh''],
      node_keys_by_input_name = [], node_keys_by_output_name = [(''a'', [''a'']), (''b'', [''b''])],
      auto_created_stub = False\<rparr>"



text \<open>An executable definition of one asset with one check on it.\<close>

definition check_def :: "string \<Rightarrow> AssetKey \<Rightarrow> AssetsDefinition" where
  "check_def nm k =
     (graph_backed_def nm k)
       \<lparr>check_specs_by_output_name := [(''fresh'', AssetCheckSpec k ''fresh'')],
        check_keys := [AssetCheckKey k ''fresh'']\<rparr>"

text \<open>
  Three executable definitions: two computed by the same graph \<open>foo\<close>, the second of
  them with a check, and one computed by an op named \<open>foo_2\<close>.
\<close>

definition unbound_check_defs :: "AssetsDefinition list" where
  "unbound_check_defs =
     [graph_backed_def ''foo'' [''a''], check_def ''foo'' [''b''], graph_backed_def ''foo_2'' [''c'']]"




section \<open>Theorems\<close>

text \<open>
  C1: \<^verbatim>\<open>materializable_in_same_run(graph, child, parent)\<close> returns true if and only if
  both nodes are materializable, both have identical partitioning, the parent is
  unpartitioned or the partition mapping from child to parent is a time-window or identity
  mapping, and, for a remote graph, child and parent have the same repository handle.
\<close>

theorem materializable_in_same_run_iff:
  "(materializable_in_same_run g child parent = Inr True) = same_run_conditions g child parent"
  by (auto simp: materializable_in_same_run_def same_run_conditions_def graph_get_def
      node_is_partitioned_def node_partitions_def_def is_simple_mapping_def
      split: option.splits)

theorem materializable_in_same_run_iff_witness:
  "materializable_in_same_run both_daily_graph [''child''] [''parent''] = Inr True
   \<and> same_run_conditions both_daily_graph [''child''] [''parent'']"
proof -
  have "materializable_in_same_run both_daily_graph [''child''] [''parent''] = Inr True"
    by (simp add: materializable_in_same_run_def graph_get_def both_daily_graph_def
        simple_node_def simple_assets_def_def daily_def node_is_materializable_def
        node_partitions_def_def node_is_partitioned_def is_simple_mapping_def)
  then show ?thesis
    using materializable_in_same_run_iff [of both_daily_graph "[''child'']" "[''parent'']"]
    by simp
qed

text \<open>
  C4 (as stated, refuted): the parent is partitioned by day, the mapping is a time-window
  mapping, the child is unpartitioned, both are materializable and the graph is not remote;
  the function returns false, since the partitions definitions of child and parent differ.
\<close>

theorem daily_parent_unpartitioned_child_counterexample:
  "node_partitions_def (simple_node [''parent''] daily) = Some (DailyPartitionsDefinition ''2024-01-01'')
   \<and> node_partitions_def (simple_node [''child''] None) = None
   \<and> node_is_materializable (simple_node [''parent''] daily)
   \<and> node_is_materializable (simple_node [''child''] None)
   \<and> get_partition_mapping daily_parent_graph [''child''] [''parent''] = TimeWindowPartitionMapping
   \<and> repository_handle daily_parent_graph = None
   \<and> materializable_in_same_run daily_parent_graph [''child''] [''parent''] = Inr False"
  by (simp add: materializable_in_same_run_def graph_get_def daily_parent_graph_def
      simple_node_def simple_assets_def_def daily_def node_is_materializable_def
      node_partitions_def_def node_is_partitioned_def is_simple_mapping_def)

text \<open>
  C4 (amended): when the parent asset is partitioned by day and the child asset is
  unpartitioned, \<^verbatim>\<open>materializable_in_same_run(graph, child, parent)\<close> returns false,
  whatever the partition mapping, materializability and locality are.
\<close>

theorem daily_parent_unpartitioned_child_false:
  assumes "nodes_by_key g child = Some c" and "nodes_by_key g parent = Some p"
    and "node_partitions_def c = None"
    and "node_partitions_def p = Some (DailyPartitionsDefinition start)"
  shows "materializable_in_same_run g child parent = Inr False"
  using assms by (simp add: materializable_in_same_run_def graph_get_def)

theorem daily_parent_unpartitioned_child_false_witness:
  "nodes_by_key daily_parent_graph [''child''] = Some (simple_node [''child''] None)
   \<and> nodes_by_key daily_parent_graph [''parent''] = Some (simple_node [''parent''] daily)
   \<and> node_partitions_def (simple_node [''child''] None) = None
   \<and> node_partitions_def (simple_node [''parent''] daily) = Some (DailyPartitionsDefinition ''2024-01-01'')
   \<and> materializable_in_same_run daily_parent_graph [''child''] [''parent''] = Inr False"
proof -
  have a: "nodes_by_key daily_parent_graph [''child''] = Some (simple_node [''child''] None)"
    by (simp add: daily_parent_graph_def)
  have b: "nodes_by_key daily_parent_graph [''parent''] = Some (simple_node [''parent''] daily)"
    by (simp add: daily_parent_graph_def)
  have c: "node_partitions_def (simple_node [''child''] None) = None"
    by (simp add: node_partitions_def_def simple_node_def simple_assets_def_def)
  have d: "node_partitions_def (simple_node [''parent''] daily) = Some (DailyPartitionsDefinition ''2024-01-01'')"
    by (simp add: node_partitions_def_def simple_node_def simple_assets_def_def daily_def)
  show ?thesis
    using a b c d daily_parent_unpartitioned_child_false [OF a b c d] by simp
qed

subsection \<open>Unknown check keys\<close>

text \<open>
  C10: for a check key with no definition in the graph's check-key-to-definition mapping,
  \<^verbatim>\<open>get_spec_for_asset_check\<close> returns \<^verbatim>\<open>None\<close> and does not raise, whereas
  \<^verbatim>\<open>get_execution_set_asset_and_check_keys\<close> on the same key fails with a lookup error.
\<close>

theorem unbound_check_key_queries:
  assumes "assets_defs_by_check_key g ck = None"
  shows "get_spec_for_asset_check g ck = Inr None
         \<and> get_execution_set_asset_and_check_keys g (CK ck) = Inl KeyError"
  using assms
  by (simp add: get_spec_for_asset_check_def get_execution_set_asset_and_check_keys_def)

theorem unbound_check_key_queries_witness:
  "assets_defs_by_check_key one_node_graph (AssetCheckKey [''a''] ''fresh'') = None
   \<and> get_spec_for_asset_check one_node_graph (AssetCheckKey [''a''] ''fresh'') = Inr None
   \<and> get_execution_set_asset_and_check_keys one_node_graph (CK (AssetCheckKey [''a''] ''fresh''))
       = Inl KeyError"
proof -
  have h: "assets_defs_by_check_key one_node_graph (AssetCheckKey [''a''] ''fresh'') = None"
    by (simp add: one_node_graph_def)
  show ?thesis
    using h unbound_check_key_queries [OF h] by simp
qed

subsection \<open>Aliases of the op nodes\<close>

lemma node_alias_assignments_length:
  "length (node_alias_assignments collisions ads) = length ads"
  by (induction ads arbitrary: collisions) (auto simp: Let_def split: option.splits)

lemma node_alias_assignments_nth:
  "i < length ads \<Longrightarrow>
   node_alias_assignments collisions ads ! i =
     (suffixed_alias (node_def_name (node_def (ads ! i)))
        (Suc (count_of collisions (node_def_name (node_def (ads ! i))) + occurrences_before ads i)),
      ads ! i)"
proof (induction ads arbitrary: collisions i)
  case Nil
  then show ?case by simp
next
  case (Cons ad ads)
  show ?case
  proof (cases i)
    case 0
    then show ?thesis
      by (auto simp: Let_def count_of_def occurrences_before_def suffixed_alias_def
          split: option.splits)
  next
    case (Suc j)
    with Cons.prems have j: "j < length ads" by simp
    show ?thesis
      using Suc Cons.IH [OF j]
      by (auto simp: Let_def count_of_def occurrences_before_def split: option.splits)
  qed
qed

text \<open>
  C7 (the code departs from the claim): the loop assigns the second definition of the node
  \<open>foo\<close> the alias \<^verbatim>\<open>foo_2\<close>, as the claim says, and then assigns the definition
  whose node is named \<open>foo_2\<close> its bare name, the same key. The returned dictionary
  has lost the second definition of \<open>foo\<close>, although the loop's comment promises a
  unique handle for each definition.
\<close>

lemma executable_sorted_alias_clash:
  "executable_sorted alias_clash_defs =
     [graph_backed_def ''foo'' [''a''], graph_backed_def ''foo'' [''b''],
      graph_backed_def ''foo_2'' [''c'']]"
  by code_simp

lemma assignments_alias_clash:
  "node_alias_assignments Map.empty
     [graph_backed_def ''foo'' [''a''], graph_backed_def ''foo'' [''b''],
      graph_backed_def ''foo_2'' [''c'']] =
     [(''foo'', graph_backed_def ''foo'' [''a'']), (''foo_2'', graph_backed_def ''foo'' [''b'']),
      (''foo_2'', graph_backed_def ''foo_2'' [''c''])]"
  by code_simp

theorem alias_overwrite_drops_definition:
  "executable_sorted alias_clash_defs =
     [graph_backed_def ''foo'' [''a''], graph_backed_def ''foo'' [''b''],
      graph_backed_def ''foo_2'' [''c'']]
   \<and> node_alias_assignments Map.empty (executable_sorted alias_clash_defs) =
       [(''foo'', graph_backed_def ''foo'' [''a'']), (''foo_2'', graph_backed_def ''foo'' [''b'']),
        (''foo_2'', graph_backed_def ''foo_2'' [''c''])]
   \<and> build_assets_defs_by_op_node_names alias_clash_defs =
       [(''foo'', graph_backed_def ''foo'' [''a'']), (''foo_2'', graph_backed_def ''foo_2'' [''c''])]"
  unfolding build_assets_defs_by_op_node_names_def executable_sorted_alias_clash
    assignments_alias_clash
  by (simp add: dict_of_assignments_def)

subsection \<open>Resolution of outputs\<close>

lemma fold_max_ge: "(m::nat) \<le> fold max xs m"
  by (induction xs arbitrary: m) (auto intro: order_trans [OF max.cobounded2])

lemma fold_max_mem: "(x::nat) \<in> set xs \<Longrightarrow> x \<le> fold max xs m"
proof (induction xs arbitrary: m)
  case Nil then show ?case by simp
next
  case (Cons a xs)
  show ?case
  proof (cases "x = a")
    case True
    have "a \<le> max a m" by simp
    also have "\<dots> \<le> fold max xs (max a m)" by (rule fold_max_ge)
    finally show ?thesis using True by simp
  next
    case False
    with Cons show ?thesis by simp
  qed
qed

lemma node_named_depth:
  "node_named nd nm = Inr d \<Longrightarrow> nesting_depth d < nesting_depth nd"
proof (cases nd)
  case (OpDefinition n outs)
  assume "node_named nd nm = Inr d"
  with OpDefinition show ?thesis by simp
next
  case (GraphDefinition n nodes maps deps)
  assume "node_named nd nm = Inr d"
  with GraphDefinition have "map_of nodes nm = Some d" by (simp split: option.splits)
  then have "(nm, d) \<in> set nodes" by (rule map_of_SomeD)
  then have "nesting_depth d \<in> set (map (\<lambda>(nm, d). nesting_depth d) nodes)" by force
  then have "nesting_depth d \<le> fold max (map (\<lambda>(nm, d). nesting_depth d) nodes) 0"
    by (rule fold_max_mem)
  with GraphDefinition show ?thesis by simp
qed

lemma resolve_limited_eq:
  "(nesting_depth nd < limit \<longrightarrow>
      resolve_limited limit out nd handle = Some (resolve_output_to_destinations out nd handle))"
  "(nesting_depth nd \<le> limit' \<longrightarrow>
      resolve_mappings_limited limit' out nd handle ms acc = Some (resolve_mappings out nd handle ms acc))"
proof (induction out nd handle and out nd handle ms acc arbitrary: limit and limit'
    rule: resolve_output_to_destinations_resolve_mappings.induct)
  case (1 out n outs handle)
  then show ?case by (cases limit) auto
next
  case (2 out n nodes maps deps handle)
  show ?case
  proof (cases limit)
    case 0 then show ?thesis by simp
  next
    case (Suc l)
    then show ?thesis using 2 [of l] by auto
  qed
next
  case (3 out nd handle all_destinations)
  then show ?case by simp
next
  case (4 out nd handle mapping rest all_destinations)
  show ?case
  proof
    assume le: "nesting_depth nd \<le> limit'"
    show "resolve_mappings_limited limit' out nd handle (mapping # rest) all_destinations =
          Some (resolve_mappings out nd handle (mapping # rest) all_destinations)"
    proof (cases "graph_output_name mapping \<noteq> out")
      case True
      then show ?thesis using 4(1) [OF True, of limit'] le by simp
    next
      case False
      show ?thesis
      proof (cases "node_named nd (maps_from_node_name mapping)")
        case (Inl e)
        then show ?thesis using False by simp
      next
        case (Inr d)
        have "nesting_depth d < nesting_depth nd" using Inr by (rule node_named_depth)
        with le have dl: "nesting_depth d < limit'" by simp
        have rec: "resolve_limited limit' (maps_from_output_name mapping) d
                     (NodeHandle (maps_from_node_name mapping) (Some handle)) =
                   Some (resolve_output_to_destinations (maps_from_output_name mapping) d
                     (NodeHandle (maps_from_node_name mapping) (Some handle)))"
          using 4(2) [OF False Inr, of limit'] dl by simp
        show ?thesis
        proof (cases "resolve_output_to_destinations (maps_from_output_name mapping) d
                     (NodeHandle (maps_from_node_name mapping) (Some handle))")
          case (Inl e)
          then show ?thesis using False Inr rec by simp
        next
          case inner: (Inr inner)
          show ?thesis
          proof (cases "output_def_named d (maps_from_output_name mapping)")
            case (Inl e)
            then show ?thesis using False Inr rec inner by simp
          next
            case od: (Inr output_def)
            show ?thesis
              using 4(3) [OF False Inr inner od, of limit'] le False Inr rec inner od by simp
          qed
        qed
      qed
    qed
  qed
qed


lemma output_def_named_Inr: "output_def_named d nm = Inr od \<Longrightarrow> od = nm"
  by (auto simp: output_def_named_def split: if_splits)

lemma destination_op: "\<not> destination out (OpDefinition n outs) handle x"
  by (auto elim: destination.cases)

lemma destination_graph:
  "destination out (GraphDefinition n nodes maps deps) handle x =
     (\<exists>m \<in> set maps. destination_via out (GraphDefinition n nodes maps deps) handle m x)"
proof
  assume "destination out (GraphDefinition n nodes maps deps) handle x"
  then show "\<exists>m \<in> set maps. destination_via out (GraphDefinition n nodes maps deps) handle m x"
    by (cases rule: destination.cases) (auto simp: destination_via_def)
next
  assume "\<exists>m \<in> set maps. destination_via out (GraphDefinition n nodes maps deps) handle m x"
  then obtain m d where m: "m \<in> set maps" "graph_output_name m = out"
      "map_of nodes (maps_from_node_name m) = Some d"
    and alt: "x \<in> set (outer_input_handles handle
                 (downstream_inputs (GraphDefinition n nodes maps deps)
                    (maps_from_node_name m) (maps_from_output_name m)))
         \<or> destination (maps_from_output_name m) d
              (NodeHandle (maps_from_node_name m) (Some handle)) x"
    by (auto simp: destination_via_def split: option.splits)
  from alt show "destination out (GraphDefinition n nodes maps deps) handle x"
  proof
    assume "x \<in> set (outer_input_handles handle
                 (downstream_inputs (GraphDefinition n nodes maps deps)
                    (maps_from_node_name m) (maps_from_output_name m)))"
    with m show ?thesis by (rule destination.direct)
  next
    assume "destination (maps_from_output_name m) d
              (NodeHandle (maps_from_node_name m) (Some handle)) x"
    with m show ?thesis by (rule destination.nested)
  qed
qed

lemma resolve_sets:
  "(\<forall>ds. resolve_output_to_destinations out nd handle = Inr ds \<longrightarrow>
      set ds = {x. destination out nd handle x})"
  "(\<forall>ds. resolve_mappings out nd handle ms acc = Inr ds \<longrightarrow>
      set ds = set acc \<union> {x. \<exists>m \<in> set ms. destination_via out nd handle m x})"
proof (induction out nd handle and out nd handle ms acc
    rule: resolve_output_to_destinations_resolve_mappings.induct)
  case (1 out n outs handle)
  then show ?case by (simp add: destination_op)
next
  case (2 out n nodes maps deps handle)
  then show ?case by (simp add: destination_graph)
next
  case (3 out nd handle all_destinations)
  then show ?case by simp
next
  case (4 out nd handle mapping rest all_destinations)
  show ?case
  proof (intro allI impI)
    fix ds
    assume res: "resolve_mappings out nd handle (mapping # rest) all_destinations = Inr ds"
    show "set ds = set all_destinations
            \<union> {x. \<exists>m \<in> set (mapping # rest). destination_via out nd handle m x}"
    proof (cases "graph_output_name mapping \<noteq> out")
      case True
      with res have "resolve_mappings out nd handle rest all_destinations = Inr ds" by simp
      with 4(1) [OF True] have "set ds = set all_destinations
            \<union> {x. \<exists>m \<in> set rest. destination_via out nd handle m x}" by blast
      moreover have "\<not> destination_via out nd handle mapping x" for x
        using True by (simp add: destination_via_def)
      ultimately show ?thesis by auto
    next
      case False
      from res False obtain d where d: "node_named nd (maps_from_node_name mapping) = Inr d"
        by (cases "node_named nd (maps_from_node_name mapping)") auto
      from res False d obtain inner where inner:
        "resolve_output_to_destinations (maps_from_output_name mapping) d
           (NodeHandle (maps_from_node_name mapping) (Some handle)) = Inr inner"
        by (cases "resolve_output_to_destinations (maps_from_output_name mapping) d
           (NodeHandle (maps_from_node_name mapping) (Some handle))") auto
      from res False d inner obtain od where od:
        "output_def_named d (maps_from_output_name mapping) = Inr od"
        by (cases "output_def_named d (maps_from_output_name mapping)") auto
      then have od_eq: "od = maps_from_output_name mapping" by (rule output_def_named_Inr)
      let ?outer = "outer_input_handles handle
                      (downstream_inputs nd (maps_from_node_name mapping) od)"
      from res False d inner od
      have "resolve_mappings out nd handle rest (all_destinations @ inner @ ?outer) = Inr ds"
        by simp
      with 4(3) [OF False d inner od]
      have a: "set ds = set (all_destinations @ inner @ ?outer)
                 \<union> {x. \<exists>m \<in> set rest. destination_via out nd handle m x}" by blast
      from 4(2) [OF False d] inner
      have b: "set inner = {x. destination (maps_from_output_name mapping) d
                (NodeHandle (maps_from_node_name mapping) (Some handle)) x}" by blast
      have c: "{x. destination_via out nd handle mapping x} = set inner \<union> set ?outer"
        using False d b od_eq by (auto simp: destination_via_def)
      show ?thesis using a c by auto
    qed
  qed
qed

text \<open>
  C9 (as stated, refuted): the returned handles need not be leaf-level. The output of
  \<open>graph_consumer\<close> is read by an input of the inner graph \<open>B\<close>; the function returns
  that input handle, whose node is a graph, and does not descend to the ops inside it.
\<close>

theorem resolve_output_not_leaf_counterexample:
  "resolve_output_to_destinations ''result'' graph_consumer (NodeHandle ''G'' None) =
     Inr [NodeInputHandle (NodeHandle ''B'' (Some (NodeHandle ''G'' None))) ''x'']
   \<and> node_at graph_consumer [''B''] = Some inner_graph_b
   \<and> \<not> is_leaf_input graph_consumer
         (NodeInputHandle (NodeHandle ''B'' (Some (NodeHandle ''G'' None))) ''x'')"
  by (simp add: graph_consumer_def inner_graph_b_def is_leaf_input_def output_def_named_def
      outer_input_handles_def)

text \<open>
  C9 (amended): \<^verbatim>\<open>_resolve_output_to_destinations\<close> terminates for every node
  definition (the function is total), the nesting of its activations is bounded by the
  nesting depth of the definition plus one, and when no lookup fails the returned sequence
  holds exactly the input handles reachable through the output mappings for that output
  name: at each level of the nesting, the inputs of that level's nodes (ops or graphs) that
  consume the inner output the mapping maps from.
\<close>

theorem resolve_output_to_destinations_bounded:
  "resolve_limited (Suc (nesting_depth nd)) out nd handle =
     Some (resolve_output_to_destinations out nd handle)
   \<and> (\<forall>ds. resolve_output_to_destinations out nd handle = Inr ds \<longrightarrow>
          set ds = {x. destination out nd handle x})"
  using resolve_limited_eq(1) [of nd "Suc (nesting_depth nd)" out handle]
    resolve_sets(1) [of out nd handle]
  by simp

theorem resolve_output_to_destinations_bounded_witness:
  "nesting_depth nested_graph = 2
   \<and> resolve_limited 3 ''result'' nested_graph (NodeHandle ''G'' None) =
       Some (Inr [NodeInputHandle (NodeHandle ''D'' (Some (NodeHandle ''B'' (Some (NodeHandle ''G'' None))))) ''x'',
                  NodeInputHandle (NodeHandle ''E'' (Some (NodeHandle ''G'' None))) ''y''])
   \<and> resolve_output_to_destinations ''result'' nested_graph (NodeHandle ''G'' None) =
       Inr [NodeInputHandle (NodeHandle ''D'' (Some (NodeHandle ''B'' (Some (NodeHandle ''G'' None))))) ''x'',
            NodeInputHandle (NodeHandle ''E'' (Some (NodeHandle ''G'' None))) ''y'']
   \<and> {x. destination ''result'' nested_graph (NodeHandle ''G'' None) x} =
       {NodeInputHandle (NodeHandle ''D'' (Some (NodeHandle ''B'' (Some (NodeHandle ''G'' None))))) ''x'',
        NodeInputHandle (NodeHandle ''E'' (Some (NodeHandle ''G'' None))) ''y''}"
proof -
  have depth: "nesting_depth nested_graph = 2"
    by (simp add: nested_graph_def inner_graph_b_def)
  have res: "resolve_output_to_destinations ''result'' nested_graph (NodeHandle ''G'' None) =
       Inr [NodeInputHandle (NodeHandle ''D'' (Some (NodeHandle ''B'' (Some (NodeHandle ''G'' None))))) ''x'',
            NodeInputHandle (NodeHandle ''E'' (Some (NodeHandle ''G'' None))) ''y'']"
    by (simp add: nested_graph_def inner_graph_b_def output_def_named_def outer_input_handles_def)
  show ?thesis
    using resolve_output_to_destinations_bounded
            [of nested_graph "''result''" "NodeHandle ''G'' None"] depth res
    by (auto simp: numeral_3_eq_3)
qed

subsection \<open>Construction of the graph\<close>

lemma build_asset_nodes_succeeds:
  "(\<And>ad k. (ad, k) \<in> set pairs \<Longrightarrow> upstream dep k \<noteq> None \<and> downstream dep k \<noteq> None) \<Longrightarrow>
   \<exists>m. build_asset_nodes dep cks pairs acc = Inr m"
proof (induction pairs arbitrary: acc)
  case Nil
  then show ?case by simp
next
  case (Cons p pairs)
  obtain ad k where p: "p = (ad, k)" by (cases p)
  from Cons.prems [of ad k] p obtain ps cs where
    u: "upstream dep k = Some ps" and d: "downstream dep k = Some cs" by auto
  have "\<exists>m. build_asset_nodes dep cks pairs acc' = Inr m" for acc'
    by (rule Cons.IH) (use Cons.prems in auto)
  then show ?case using p u d by simp
qed

lemma build_asset_nodes_node:
  "build_asset_nodes dep cks pairs acc = Inr m \<Longrightarrow> m k = Some n \<Longrightarrow>
   acc k = Some n \<or>
   (\<exists>ad ps cs. (ad, k) \<in> set pairs \<and> upstream dep k = Some ps \<and> downstream dep k = Some cs \<and>
      n = \<lparr>node_key = k, parent_keys = ps, child_keys = cs, assets_def = ad,
           node_check_keys = cks k\<rparr>)"
proof (induction pairs arbitrary: acc)
  case Nil
  then show ?case by simp
next
  case (Cons p pairs)
  obtain ad k' where p: "p = (ad, k')" by (cases p)
  from Cons.prems(1) p obtain ps cs where
    u: "upstream dep k' = Some ps" and d: "downstream dep k' = Some cs"
    and rest: "build_asset_nodes dep cks pairs
                 (acc(k' \<mapsto> \<lparr>node_key = k', parent_keys = ps, child_keys = cs, assets_def = ad,
                              node_check_keys = cks k'\<rparr>)) = Inr m"
    by (auto split: option.splits)
  from Cons.IH [OF rest Cons.prems(2)] show ?case
    using p u d by (auto split: if_splits)
qed

lemma build_asset_nodes_dom:
  "build_asset_nodes dep cks pairs acc = Inr m \<Longrightarrow> dom m = dom acc \<union> snd ` set pairs"
proof (induction pairs arbitrary: acc)
  case Nil
  then show ?case by simp
next
  case (Cons p pairs)
  obtain ad k' where p: "p = (ad, k')" by (cases p)
  from Cons.prems(1) p obtain ps cs where
    rest: "build_asset_nodes dep cks pairs
                 (acc(k' \<mapsto> \<lparr>node_key = k', parent_keys = ps, child_keys = cs, assets_def = ad,
                              node_check_keys = cks k'\<rparr>)) = Inr m"
    by (auto split: option.splits)
  from Cons.IH [OF rest] show ?case using p by auto
qed

lemma keys_with_defs_set:
  "set (keys_with_defs ds) = {(ad, k). ad \<in> set ds \<and> k \<in> set (keys ad)}"
  by (auto simp: keys_with_defs_def)

lemma parent_of_set:
  "set (parent_of ds) = {(p, k). \<exists>ad \<in> set ds. k \<in> set (keys ad) \<and> p \<in> set (deps_of ad k)}"
  by (auto simp: parent_of_def)

lemma from_assets_nodes:
  assumes "from_assets M assets = Inr g" and "asset_nodes_by_key g k = Some n"
  shows "\<exists>ad \<in> set (normalize_assets assets). k \<in> set (keys ad) \<and> node_key n = k \<and> assets_def n = ad
           \<and> parent_keys n = {p. (p, k) \<in> set (parent_of (normalize_assets assets))}
           \<and> child_keys n = {c. (k, c) \<in> set (parent_of (normalize_assets assets))}
           \<and> node_check_keys n = fst (bind_check_keys (normalize_assets assets)) k"
proof -
  let ?ds = "normalize_assets assets"
  from assms(1) obtain m where
    m: "build_asset_nodes (generate_asset_dep_graph ?ds) (fst (bind_check_keys ?ds))
          (keys_with_defs ?ds) Map.empty = Inr m"
    and g: "asset_nodes_by_key g = m"
    by (auto simp: from_assets_def Let_def split: sum.splits)
  from build_asset_nodes_node [OF m, of k n] assms(2) g
  obtain ad ps cs where in_pairs: "(ad, k) \<in> set (keys_with_defs ?ds)"
    and u: "upstream (generate_asset_dep_graph ?ds) k = Some ps"
    and d: "downstream (generate_asset_dep_graph ?ds) k = Some cs"
    and n: "n = \<lparr>node_key = k, parent_keys = ps, child_keys = cs, assets_def = ad,
              node_check_keys = fst (bind_check_keys ?ds) k\<rparr>"
    by auto
  from in_pairs have ad: "ad \<in> set ?ds" "k \<in> set (keys ad)" by (auto simp: keys_with_defs_set)
  from u have ps: "ps = {p. (p, k) \<in> set (parent_of ?ds)}"
    by (force simp: generate_asset_dep_graph_def split: if_splits)
  from d have cs: "cs = {c. (k, c) \<in> set (parent_of ?ds)}"
    by (force simp: generate_asset_dep_graph_def split: if_splits)
  show ?thesis using ad n ps cs by auto
qed

lemma snd_keys_with_defs: "snd ` set (keys_with_defs ds) = set (concat (map keys ds))"
proof -
  have "snd ` {(ad, k). ad \<in> set ds \<and> k \<in> set (keys ad)} = (\<Union>ad \<in> set ds. set (keys ad))"
    by force
  then show ?thesis by (simp add: keys_with_defs_set)
qed

lemma from_assets_dom:
  assumes "from_assets M assets = Inr g"
  shows "dom (asset_nodes_by_key g) = set (concat (map keys (normalize_assets assets)))"
proof -
  let ?ds = "normalize_assets assets"
  from assms(1) obtain m where
    m: "build_asset_nodes (generate_asset_dep_graph ?ds) (fst (bind_check_keys ?ds))
          (keys_with_defs ?ds) Map.empty = Inr m"
    and g: "asset_nodes_by_key g = m"
    by (auto simp: from_assets_def Let_def split: sum.splits)
  from build_asset_nodes_dom [OF m] have "dom m = snd ` set (keys_with_defs ?ds)" by simp
  then show ?thesis unfolding g snd_keys_with_defs .
qed

lemma dep_graph_total:
  assumes "(ad, k) \<in> set (keys_with_defs ds)"
  shows "upstream (generate_asset_dep_graph ds) k \<noteq> None
         \<and> downstream (generate_asset_dep_graph ds) k \<noteq> None"
proof -
  from assms have "k \<in> set (concat (map keys ds))"
    by (auto simp: keys_with_defs_set)
  then show ?thesis by (simp add: generate_asset_dep_graph_def)
qed

lemma nodes_never_fail:
  "\<exists>m. build_asset_nodes (generate_asset_dep_graph ds) cks (keys_with_defs ds) Map.empty = Inr m"
  by (rule build_asset_nodes_succeeds) (rule dep_graph_total)



lemma deps_of_stub: "deps_of (external_stub_def key) k = []"
  by (simp add: deps_of_def external_stub_def_def)

lemma normalize_assets_keys:
  "set (concat (map keys (normalize_assets assets))) =
     set (concat (map keys assets)) \<union> set (concat (map dependency_keys assets))"
  by (auto simp: normalize_assets_def Let_def external_stub_def_def)

lemma normalize_assets_parent:
  assumes "(p, k) \<in> set (parent_of (normalize_assets assets))"
  shows "p \<in> set (concat (map keys (normalize_assets assets)))
         \<and> k \<in> set (concat (map keys (normalize_assets assets)))"
proof -
  from assms obtain ad where ad: "ad \<in> set (normalize_assets assets)"
    and k: "k \<in> set (keys ad)" and p: "p \<in> set (deps_of ad k)"
    by (auto simp: parent_of_set)
  from ad p have "ad \<in> set assets"
    by (auto simp: normalize_assets_def Let_def deps_of_stub)
  with k p have dk: "p \<in> set (concat (map dependency_keys assets))"
    by (auto simp: dependency_keys_def)
  have "p \<in> set (concat (map keys (normalize_assets assets)))"
    unfolding normalize_assets_keys using dk by blast
  moreover from ad k have "k \<in> set (concat (map keys (normalize_assets assets)))"
    by auto
  ultimately show ?thesis by simp
qed


lemma stub_created:
  assumes "ad \<in> set assets" and "key \<in> set (dependency_keys ad)"
    and "key \<notin> set (concat (map keys assets))"
  shows "external_stub_def key \<in> set (normalize_assets assets)"
  using assms by (auto simp: normalize_assets_def Let_def)

lemma fold_upd_lookup:
  "fold (\<lambda>k m. m(k \<mapsto> ad)) ks m0 ck = (if ck \<in> set ks then Some ad else m0 ck)"
  by (induction ks arbitrary: m0) auto

lemma flatten_node_checks:
  assumes "flatten_node M entry st = Inr st'"
  shows "snd st' = (if check_specs_by_output_name (snd entry) \<noteq> []
                    then fold (\<lambda>k m. m(k \<mapsto> snd entry)) (check_keys (snd entry)) (snd st)
                    else snd st)"
  using assms
  by (auto simp: flatten_node_def Let_def split: sum.splits if_splits)

lemma flatten_nodes_bound:
  "flatten_nodes M entries st = Inr st' \<Longrightarrow> snd st' ck = Some ad \<Longrightarrow>
   snd st ck = Some ad \<or> (ad \<in> snd ` set entries \<and> ck \<in> set (check_keys ad))"
proof (induction entries arbitrary: st)
  case Nil
  then show ?case by simp
next
  case (Cons entry entries)
  from Cons.prems(1) obtain st1 where one: "flatten_node M entry st = Inr st1"
    and rest: "flatten_nodes M entries st1 = Inr st'"
    by (auto split: sum.splits)
  from Cons.IH [OF rest Cons.prems(2)]
  show ?case
  proof
    assume "snd st1 ck = Some ad"
    then show ?thesis
      using flatten_node_checks [OF one]
      by (auto simp: fold_upd_lookup split: if_splits)
  next
    assume "ad \<in> snd ` set entries \<and> ck \<in> set (check_keys ad)"
    then show ?thesis by auto
  qed
qed

lemma from_assets_check_owner:
  assumes "from_assets M assets = Inr g" and "assets_defs_by_check_key g ck = Some ad"
  shows "ck \<in> set (check_keys ad)"
proof -
  from assms(1) obtain st where
    st: "flatten_nodes M (build_assets_defs_by_op_node_names (normalize_assets assets))
           (Map.empty, Map.empty) = Inr st"
    and g: "assets_defs_by_check_key g = snd st"
    by (auto simp: from_assets_def Let_def split: sum.splits)
  from flatten_nodes_bound [OF st, of ck ad] assms(2) g show ?thesis by auto
qed

lemma singleton_of_card:
  assumes "x \<in> A" and "finite A" and "\<not> 1 < card A"
  shows "A = {x}"
proof -
  from assms have "card A = 1"
    by (metis One_nat_def Suc_lessI card_gt_0_iff empty_iff)
  then obtain y where "A = {y}" by (auto simp: card_1_singleton_iff)
  with assms(1) show ?thesis by auto
qed

lemma finite_asset_and_check_keys: "finite (asset_and_check_keys ad)"
  by (simp add: asset_and_check_keys_def)


lemma for_each_succeeds:
  "(\<And>x. x \<in> set xs \<Longrightarrow> \<exists>y. body x = Inr y) \<Longrightarrow> \<exists>ys. for_each body xs = Inr ys"
proof (induction xs)
  case Nil
  then show ?case by simp
next
  case (Cons x xs)
  from Cons.prems [of x] obtain y where y: "body x = Inr y" by auto
  from Cons.IH Cons.prems obtain ys where "for_each body xs = Inr ys" by auto
  with y show ?case by simp
qed

lemma flatten_node_op:
  assumes "node_def (snd entry) = OpDefinition n outs"
  shows "\<exists>st'. flatten_node op_methods entry st = Inr st'"
proof -
  let ?h = "NodeHandle (fst entry) None"
  obtain ins where ins: "for_each (\<lambda>(input_name, input_asset_key).
                resolve_input_to_destinations op_methods (node_def (snd entry))
                  (NodeInputHandle ?h input_name)) (node_keys_by_input_name (snd entry)) = Inr ins"
    using for_each_succeeds [of "node_keys_by_input_name (snd entry)"
        "\<lambda>(input_name, input_asset_key).
                resolve_input_to_destinations op_methods (node_def (snd entry))
                  (NodeInputHandle ?h input_name)"]
    by (auto simp: op_methods_def)
  obtain outs' where outs: "for_each (\<lambda>(out, asset_key).
                     case origin_handle op_methods (node_def (snd entry)) out ?h of
                       Inl e \<Rightarrow> Inl e
                     | Inr inner_output_handle \<Rightarrow>
                         (case resolve_output_to_destinations out (node_def (snd entry)) ?h of
                            Inl e \<Rightarrow> Inl e
                          | Inr destinations \<Rightarrow> Inr (inner_output_handle, asset_key)))
                  (node_keys_by_output_name (snd entry)) = Inr outs'"
    using for_each_succeeds [of "node_keys_by_output_name (snd entry)"
        "\<lambda>(out, asset_key).
                     case origin_handle op_methods (node_def (snd entry)) out ?h of
                       Inl e \<Rightarrow> Inl e
                     | Inr inner_output_handle \<Rightarrow>
                         (case resolve_output_to_destinations out (node_def (snd entry)) ?h of
                            Inl e \<Rightarrow> Inl e
                          | Inr destinations \<Rightarrow> Inr (inner_output_handle, asset_key))"]
    by (auto simp: op_methods_def origin_handle_def assms)
  obtain cs where cs: "for_each (\<lambda>(out, check_spec).
                            origin_handle op_methods (node_def (snd entry)) out ?h)
                         (check_specs_by_output_name (snd entry)) = Inr cs"
    using for_each_succeeds [of "check_specs_by_output_name (snd entry)"
        "\<lambda>(out, check_spec). origin_handle op_methods (node_def (snd entry)) out ?h"]
    by (auto simp: op_methods_def origin_handle_def)
  show ?thesis
    unfolding flatten_node_def Let_def ins outs cs by simp
qed

lemma flatten_nodes_op:
  "(\<And>e. e \<in> set entries \<Longrightarrow> \<exists>n outs. node_def (snd e) = OpDefinition n outs) \<Longrightarrow>
   \<exists>st'. flatten_nodes op_methods entries st = Inr st'"
proof (induction entries arbitrary: st)
  case Nil
  then show ?case by simp
next
  case (Cons e entries)
  from Cons.prems [of e] obtain n outs where "node_def (snd e) = OpDefinition n outs" by auto
  from flatten_node_op [OF this] obtain st1 where st1: "flatten_node op_methods e st = Inr st1"
    by blast
  from Cons.IH [of st1] Cons.prems obtain st' where "flatten_nodes op_methods entries st1 = Inr st'"
    by auto
  with st1 show ?case by simp
qed

lemma from_assets_Inr:
  assumes "flatten_nodes M (build_assets_defs_by_op_node_names (normalize_assets assets))
             (Map.empty, Map.empty) = Inr st"
  shows "\<exists>g. from_assets M assets = Inr g \<and> assets_defs_by_check_key g = snd st
              \<and> asset_keys_by_node_output_handle g = fst st"
proof -
  from nodes_never_fail [of "normalize_assets assets" "fst (bind_check_keys (normalize_assets assets))"]
  obtain m where "build_asset_nodes (generate_asset_dep_graph (normalize_assets assets))
      (fst (bind_check_keys (normalize_assets assets))) (keys_with_defs (normalize_assets assets))
      Map.empty = Inr m" by blast
  with assms show ?thesis by (simp add: from_assets_def Let_def)
qed

lemma normalize_downstream: "normalize_assets [downstream_def] = [downstream_def, external_stub_def [''a'']]"
  by (simp add: normalize_assets_def downstream_def_def dependency_keys_def deps_of_def)

lemma names_downstream:
  "build_assets_defs_by_op_node_names [downstream_def, external_stub_def [''a'']] =
     [(''b'', downstream_def)]"
  by code_simp

lemma parent_of_downstream:
  "parent_of [downstream_def, external_stub_def [''a'']] = [([''a''], [''b''])]"
  by (simp add: parent_of_def deps_of_def downstream_def_def external_stub_def_def)

lemma keys_downstream:
  "set (concat (map keys [downstream_def, external_stub_def [''a'']])) = {[''a''], [''b'']}"
  by (auto simp: downstream_def_def external_stub_def_def)

lemma downstream_graph:
  "\<exists>g na nb. from_assets op_methods [downstream_def] = Inr g
     \<and> asset_nodes_by_key g [''a''] = Some na \<and> asset_nodes_by_key g [''b''] = Some nb
     \<and> parent_keys nb = {[''a'']} \<and> child_keys na = {[''b'']}"
proof -
  have "\<exists>st. flatten_nodes op_methods [(''b'', downstream_def)] (Map.empty, Map.empty) = Inr st"
    by (rule flatten_nodes_op) (simp add: downstream_def_def)
  then obtain st where
    "flatten_nodes op_methods (build_assets_defs_by_op_node_names (normalize_assets [downstream_def]))
       (Map.empty, Map.empty) = Inr st"
    by (auto simp: normalize_downstream names_downstream)
  from from_assets_Inr [OF this] obtain g where g: "from_assets op_methods [downstream_def] = Inr g"
    by blast
  from from_assets_dom [OF g] have dom: "dom (asset_nodes_by_key g) = {[''a''], [''b'']}"
    by (simp only: normalize_downstream keys_downstream)
  then obtain na nb where na: "asset_nodes_by_key g [''a''] = Some na"
    and nb: "asset_nodes_by_key g [''b''] = Some nb"
    by (metis domD insertI1 insertI2)
  from from_assets_nodes [OF g nb] have pb: "parent_keys nb = {[''a'']}"
    by (auto simp: normalize_downstream parent_of_downstream)
  from from_assets_nodes [OF g na] have ca: "child_keys na = {[''b'']}"
    by (auto simp: normalize_downstream parent_of_downstream)
  from g na nb pb ca show ?thesis by blast
qed

lemma normalize_multi: "normalize_assets [multi_def] = [multi_def]"
  by (simp add: normalize_assets_def multi_def_def dependency_keys_def deps_of_def)

lemma names_multi: "build_assets_defs_by_op_node_names [multi_def] = [(''multi'', multi_def)]"
  by code_simp

lemma keys_multi: "set (concat (map keys [multi_def])) = {[''a''], [''b'']}"
  by (auto simp: multi_def_def)

lemma all_keys_multi:
  "asset_and_check_keys multi_def = {AK [''a''], AK [''b''], CK (AssetCheckKey [''a''] ''fresh'')}"
  by (auto simp: asset_and_check_keys_def multi_def_def)

lemma multi_graph:
  "\<exists>g. from_assets op_methods [multi_def] = Inr g
     \<and> owning_definition g (AK [''a'']) = Some multi_def
     \<and> owning_definition g (AK [''b'']) = Some multi_def
     \<and> owning_definition g (CK (AssetCheckKey [''a''] ''fresh'')) = Some multi_def"
proof -
  have "\<exists>st. flatten_nodes op_methods [(''multi'', multi_def)] (Map.empty, Map.empty) = Inr st"
    by (rule flatten_nodes_op) (simp add: multi_def_def)
  then obtain st where st: "flatten_nodes op_methods [(''multi'', multi_def)] (Map.empty, Map.empty) = Inr st"
    by blast
  then have one: "flatten_node op_methods (''multi'', multi_def) (Map.empty, Map.empty) = Inr st"
    by (simp split: sum.splits)
  have specs: "check_specs_by_output_name multi_def \<noteq> []" by (simp add: multi_def_def)
  have cks: "check_keys multi_def = [AssetCheckKey [''a''] ''fresh'']" by (simp add: multi_def_def)
  from flatten_node_checks [OF one] specs cks
  have bound: "snd st (AssetCheckKey [''a''] ''fresh'') = Some multi_def" by simp
  from st have "flatten_nodes op_methods (build_assets_defs_by_op_node_names (normalize_assets [multi_def]))
       (Map.empty, Map.empty) = Inr st"
    by (simp only: normalize_multi names_multi)
  from from_assets_Inr [OF this] obtain g where g: "from_assets op_methods [multi_def] = Inr g"
    and gc: "assets_defs_by_check_key g = snd st"
    by blast
  from from_assets_dom [OF g] have dom: "dom (asset_nodes_by_key g) = {[''a''], [''b'']}"
    by (simp only: normalize_multi keys_multi)
  then obtain na nb where na: "asset_nodes_by_key g [''a''] = Some na"
    and nb: "asset_nodes_by_key g [''b''] = Some nb"
    by (metis domD insertI1 insertI2)
  from from_assets_nodes [OF g na] have da: "assets_def na = multi_def" by (auto simp: normalize_multi)
  from from_assets_nodes [OF g nb] have db: "assets_def nb = multi_def" by (auto simp: normalize_multi)
  show ?thesis
    using g na nb da db gc bound by (auto simp: owning_definition_def)
qed

lemma normalize_unbound: "normalize_assets unbound_check_defs = unbound_check_defs"
  by (simp add: normalize_assets_def unbound_check_defs_def dependency_keys_def deps_of_def
      graph_backed_def_def check_def_def simple_assets_def_def)

lemma names_unbound:
  "build_assets_defs_by_op_node_names unbound_check_defs =
     [(''foo'', graph_backed_def ''foo'' [''a'']), (''foo_2'', graph_backed_def ''foo_2'' [''c''])]"
  by code_simp

lemma keys_unbound: "set (concat (map keys unbound_check_defs)) = {[''a''], [''b''], [''c'']}"
  by (auto simp: unbound_check_defs_def graph_backed_def_def check_def_def simple_assets_def_def)

lemma bind_unbound:
  "AssetCheckKey [''b''] ''fresh'' \<in> fst (bind_check_keys unbound_check_defs) [''b'']
   \<and> snd (bind_check_keys unbound_check_defs) (AssetCheckKey [''b''] ''fresh'') =
       Some (check_def ''foo'' [''b''])"
  by (simp add: bind_check_keys_def bind_check_key_def unbound_check_defs_def graph_backed_def_def
      check_def_def simple_assets_def_def)





text \<open>
  C8: in every graph that \<^verbatim>\<open>from_assets\<close> builds, for every two asset keys \<open>a\<close> and
  \<open>b\<close> with a node, \<open>b\<close> is among the parent keys of the node of \<open>a\<close> if and only
  if \<open>a\<close> is among the child keys of the node of \<open>b\<close>.
\<close>

theorem adjacency_symmetric:
  assumes "from_assets M assets = Inr g"
    and "asset_nodes_by_key g a = Some na" and "asset_nodes_by_key g b = Some nb"
  shows "(b \<in> parent_keys na) = (a \<in> child_keys nb)"
  using from_assets_nodes [OF assms(1) assms(2)] from_assets_nodes [OF assms(1) assms(3)]
  by auto

theorem adjacency_symmetric_witness:
  "\<exists>g na nb. from_assets op_methods [downstream_def] = Inr g
     \<and> asset_nodes_by_key g [''b''] = Some nb \<and> asset_nodes_by_key g [''a''] = Some na
     \<and> [''a''] \<in> parent_keys nb \<and> [''b''] \<in> child_keys na"
proof -
  from downstream_graph obtain g na nb where g: "from_assets op_methods [downstream_def] = Inr g"
    and na: "asset_nodes_by_key g [''a''] = Some na" and nb: "asset_nodes_by_key g [''b''] = Some nb"
    and pb: "parent_keys nb = {[''a'']}"
    by blast
  from pb have "[''a''] \<in> parent_keys nb" by simp
  with adjacency_symmetric [OF g nb na] have "[''b''] \<in> child_keys na" by simp
  with g na nb \<open>[''a''] \<in> parent_keys nb\<close> show ?thesis by blast
qed

text \<open>
  C5: a key that a given definition references as a dependency and that no given
  definition has is given a stub definition by \<^verbatim>\<open>normalize_assets\<close>: a definition of
  that one key, unexecutable, not materializable and marked as auto-created. The lookups
  of the node construction in the dependency graph never fail, so that
  \<^verbatim>\<open>from_assets\<close> returns a graph whenever the flattening of the op nodes succeeds.
  In the graph, every parent key and every child key of a node has a node.
\<close>

theorem stub_synthesis_closure:
  "(ad \<in> set assets \<and> key \<in> set (dependency_keys ad) \<and> key \<notin> set (concat (map keys assets))
      \<longrightarrow> external_stub_def key \<in> set (normalize_assets assets)
          \<and> keys (external_stub_def key) = [key]
          \<and> \<not> is_executable (external_stub_def key)
          \<and> \<not> is_materializable (external_stub_def key)
          \<and> auto_created_stub (external_stub_def key))
   \<and> (\<exists>nodes. build_asset_nodes (generate_asset_dep_graph (normalize_assets assets))
                  (fst (bind_check_keys (normalize_assets assets)))
                  (keys_with_defs (normalize_assets assets)) Map.empty = Inr nodes)
   \<and> (flatten_nodes M (build_assets_defs_by_op_node_names (normalize_assets assets))
          (Map.empty, Map.empty) = Inr st
      \<longrightarrow> (\<exists>g'. from_assets M assets = Inr g'))
   \<and> (from_assets M assets = Inr g \<and> asset_nodes_by_key g k = Some n
      \<longrightarrow> parent_keys n \<union> child_keys n \<subseteq> dom (asset_nodes_by_key g))"
proof (intro conjI impI)
  assume "ad \<in> set assets \<and> key \<in> set (dependency_keys ad) \<and> key \<notin> set (concat (map keys assets))"
  then show "external_stub_def key \<in> set (normalize_assets assets)"
    using stub_created [of ad assets key] by blast
next
  show "keys (external_stub_def key) = [key]" by (simp add: external_stub_def_def)
next
  show "\<not> is_executable (external_stub_def key)" by (simp add: external_stub_def_def)
next
  show "\<not> is_materializable (external_stub_def key)" by (simp add: external_stub_def_def)
next
  show "auto_created_stub (external_stub_def key)" by (simp add: external_stub_def_def)
next
  show "\<exists>nodes. build_asset_nodes (generate_asset_dep_graph (normalize_assets assets))
                  (fst (bind_check_keys (normalize_assets assets)))
                  (keys_with_defs (normalize_assets assets)) Map.empty = Inr nodes"
    by (rule nodes_never_fail)
next
  assume "flatten_nodes M (build_assets_defs_by_op_node_names (normalize_assets assets))
          (Map.empty, Map.empty) = Inr st"
  from from_assets_Inr [OF this] show "\<exists>g'. from_assets M assets = Inr g'" by blast
next
  assume a: "from_assets M assets = Inr g \<and> asset_nodes_by_key g k = Some n"
  then have g: "from_assets M assets = Inr g" and n: "asset_nodes_by_key g k = Some n" by simp_all
  show "parent_keys n \<union> child_keys n \<subseteq> dom (asset_nodes_by_key g)"
  proof
    fix x assume x: "x \<in> parent_keys n \<union> child_keys n"
    from from_assets_nodes [OF g n] have
      p: "parent_keys n = {p. (p, k) \<in> set (parent_of (normalize_assets assets))}" and
      c: "child_keys n = {c. (k, c) \<in> set (parent_of (normalize_assets assets))}" by auto
    from x p c have "x \<in> set (concat (map keys (normalize_assets assets)))"
      using normalize_assets_parent [of x k assets] normalize_assets_parent [of k x assets]
      by blast
    then show "x \<in> dom (asset_nodes_by_key g)"
      by (simp only: from_assets_dom [OF g])
  qed
qed

theorem stub_synthesis_closure_witness:
  "\<exists>st g n. downstream_def \<in> set [downstream_def]
     \<and> [''a''] \<in> set (dependency_keys downstream_def)
     \<and> [''a''] \<notin> set (concat (map keys [downstream_def]))
     \<and> external_stub_def [''a''] \<in> set (normalize_assets [downstream_def])
     \<and> flatten_nodes op_methods
           (build_assets_defs_by_op_node_names (normalize_assets [downstream_def]))
           (Map.empty, Map.empty) = Inr st
     \<and> from_assets op_methods [downstream_def] = Inr g
     \<and> asset_nodes_by_key g [''b''] = Some n
     \<and> [''a''] \<in> parent_keys n
     \<and> parent_keys n \<union> child_keys n \<subseteq> dom (asset_nodes_by_key g)"
proof -
  have h1: "downstream_def \<in> set [downstream_def]" by simp
  have h2: "[''a''] \<in> set (dependency_keys downstream_def)"
    by (simp add: dependency_keys_def deps_of_def downstream_def_def)
  have h3: "[''a''] \<notin> set (concat (map keys [downstream_def]))"
    by (simp add: downstream_def_def)
  have "\<exists>st. flatten_nodes op_methods [(''b'', downstream_def)] (Map.empty, Map.empty) = Inr st"
    by (rule flatten_nodes_op) (simp add: downstream_def_def)
  then obtain st where st: "flatten_nodes op_methods
           (build_assets_defs_by_op_node_names (normalize_assets [downstream_def]))
           (Map.empty, Map.empty) = Inr st"
    by (auto simp: normalize_downstream names_downstream)
  from downstream_graph obtain g na nb where g: "from_assets op_methods [downstream_def] = Inr g"
    and nb: "asset_nodes_by_key g [''b''] = Some nb"
    and pb: "parent_keys nb = {[''a'']}"
    by blast
  from pb have pa: "[''a''] \<in> parent_keys nb" by simp
  show ?thesis
    using stub_synthesis_closure
            [of downstream_def "[downstream_def]" "[''a'']" op_methods st g "[''b'']" nb]
          h1 h2 h3 st g nb pa
    by blast
qed

text \<open>
  In a graph that \<^verbatim>\<open>from_assets\<close> builds, an identifier (asset key or check key)
  whose definition in the graph is \<open>ad\<close> is one of the asset and check keys of \<open>ad\<close>,
  and its execution set is the whole set of the asset and check keys of \<open>ad\<close> when
  \<open>ad\<close> cannot be subset and has more than one of them, and the singleton of the
  identifier otherwise.
\<close>

lemma execution_set_of_bound_identifier:
  assumes "from_assets M assets = Inr g" and "owning_definition g x = Some ad"
  shows "x \<in> asset_and_check_keys ad
         \<and> get_execution_set_asset_and_check_keys g x =
             Inr (if \<not> can_subset ad \<and> 1 < card (asset_and_check_keys ad)
                  then asset_and_check_keys ad else {x})"
proof (cases x)
  case (AK k)
  with assms(2) obtain n where n: "asset_nodes_by_key g k = Some n" and ad: "assets_def n = ad"
    by (auto simp: owning_definition_def)
  from from_assets_nodes [OF assms(1) n] ad
  have k: "k \<in> set (keys ad)" and nk: "node_key n = k" by auto
  from k AK have mem: "x \<in> asset_and_check_keys ad"
    by (simp add: asset_and_check_keys_def)
  have one: "\<not> 1 < card (asset_and_check_keys ad) \<Longrightarrow> asset_and_check_keys ad = {x}"
    using mem finite_asset_and_check_keys by (rule singleton_of_card)
  show ?thesis
    using mem AK n ad nk one
    by (auto simp: get_execution_set_asset_and_check_keys_def get_def
        execution_set_asset_and_check_keys_def)
next
  case (CK ck)
  with assms(2) have b: "assets_defs_by_check_key g ck = Some ad"
    by (simp add: owning_definition_def)
  from from_assets_check_owner [OF assms(1) b] CK
  have mem: "x \<in> asset_and_check_keys ad"
    by (simp add: asset_and_check_keys_def)
  have one: "\<not> 1 < card (asset_and_check_keys ad) \<Longrightarrow> asset_and_check_keys ad = {x}"
    using mem finite_asset_and_check_keys by (rule singleton_of_card)
  show ?thesis
    using mem CK b one
    by (auto simp: get_execution_set_asset_and_check_keys_def)
qed

lemma execution_sets_of_multi_def:
  "\<exists>g. from_assets op_methods [multi_def] = Inr g
     \<and> owning_definition g (AK [''a'']) = Some multi_def
     \<and> owning_definition g (AK [''b'']) = Some multi_def
     \<and> owning_definition g (CK (AssetCheckKey [''a''] ''fresh'')) = Some multi_def
     \<and> \<not> can_subset multi_def
     \<and> get_execution_set_asset_and_check_keys g (AK [''a'']) =
           Inr {AK [''a''], AK [''b''], CK (AssetCheckKey [''a''] ''fresh'')}
     \<and> get_execution_set_asset_and_check_keys g (AK [''b'']) =
           Inr {AK [''a''], AK [''b''], CK (AssetCheckKey [''a''] ''fresh'')}
     \<and> get_execution_set_asset_and_check_keys g (CK (AssetCheckKey [''a''] ''fresh'')) =
           Inr {AK [''a''], AK [''b''], CK (AssetCheckKey [''a''] ''fresh'')}"
proof -
  from multi_graph obtain g where g: "from_assets op_methods [multi_def] = Inr g"
    and oa: "owning_definition g (AK [''a'']) = Some multi_def"
    and ob: "owning_definition g (AK [''b'']) = Some multi_def"
    and oc: "owning_definition g (CK (AssetCheckKey [''a''] ''fresh'')) = Some multi_def"
    by blast
  have ns: "\<not> can_subset multi_def" by (simp add: multi_def_def)
  have card: "1 < card (asset_and_check_keys multi_def)"
    by (simp add: all_keys_multi)
  from execution_set_of_bound_identifier [OF g oa] ns card
  have ea: "get_execution_set_asset_and_check_keys g (AK [''a'']) = Inr (asset_and_check_keys multi_def)"
    by simp
  from execution_set_of_bound_identifier [OF g ob] ns card
  have eb: "get_execution_set_asset_and_check_keys g (AK [''b'']) = Inr (asset_and_check_keys multi_def)"
    by simp
  from execution_set_of_bound_identifier [OF g oc] ns card
  have ec: "get_execution_set_asset_and_check_keys g (CK (AssetCheckKey [''a''] ''fresh'')) =
              Inr (asset_and_check_keys multi_def)"
    by simp
  show ?thesis
    using g oa ob oc ns ea eb ec unfolding all_keys_multi by blast
qed

lemma unbound_check_graph:
  "\<exists>g n. from_assets op_methods unbound_check_defs = Inr g
     \<and> spec_key (AssetCheckSpec [''b''] ''fresh'') = AssetCheckKey [''b''] ''fresh''
     \<and> (''fresh'', AssetCheckSpec [''b''] ''fresh'')
          \<in> set (check_specs_by_output_name (check_def ''foo'' [''b'']))
     \<and> check_def ''foo'' [''b''] \<in> set unbound_check_defs
     \<and> asset_nodes_by_key g [''b''] = Some n
     \<and> assets_def n = check_def ''foo'' [''b'']
     \<and> AssetCheckKey [''b''] ''fresh'' \<in> node_check_keys n
     \<and> snd (bind_check_keys (normalize_assets unbound_check_defs)) (AssetCheckKey [''b''] ''fresh'')
         = Some (check_def ''foo'' [''b''])
     \<and> assets_defs_by_check_key g (AssetCheckKey [''b''] ''fresh'') = None
     \<and> get_spec_for_asset_check g (AssetCheckKey [''b''] ''fresh'') = Inr None
     \<and> get_execution_set_asset_and_check_keys g (CK (AssetCheckKey [''b''] ''fresh'')) = Inl KeyError"
proof -
  let ?ck = "AssetCheckKey [''b''] ''fresh''"
  let ?entries = "[(''foo'', graph_backed_def ''foo'' [''a'']), (''foo_2'', graph_backed_def ''foo_2'' [''c''])]"
  have "\<exists>st. flatten_nodes op_methods ?entries (Map.empty, Map.empty) = Inr st"
    by (rule flatten_nodes_op) (auto simp: graph_backed_def_def)
  then obtain st where st: "flatten_nodes op_methods ?entries (Map.empty, Map.empty) = Inr st"
    by blast
  have none: "snd st ?ck = None"
  proof (cases "snd st ?ck")
    case None
    then show ?thesis .
  next
    case (Some ad)
    from flatten_nodes_bound [OF st Some]
    have "ad \<in> snd ` set ?entries \<and> ?ck \<in> set (check_keys ad)" by simp
    then have False
      by (auto simp: graph_backed_def_def simple_assets_def_def)
    then show ?thesis ..
  qed
  from st have "flatten_nodes op_methods
      (build_assets_defs_by_op_node_names (normalize_assets unbound_check_defs))
      (Map.empty, Map.empty) = Inr st"
    by (simp only: normalize_unbound names_unbound)
  from from_assets_Inr [OF this] obtain g where g: "from_assets op_methods unbound_check_defs = Inr g"
    and gc: "assets_defs_by_check_key g = snd st"
    by blast
  from from_assets_dom [OF g] have "dom (asset_nodes_by_key g) = {[''a''], [''b''], [''c'']}"
    by (simp only: normalize_unbound keys_unbound)
  then obtain n where n: "asset_nodes_by_key g [''b''] = Some n"
    by (metis domD insertI1 insertI2)
  from from_assets_nodes [OF g n] obtain ad where ad: "ad \<in> set unbound_check_defs"
    and kb: "[''b''] \<in> set (keys ad)" and dn: "assets_def n = ad"
    and cn: "node_check_keys n = fst (bind_check_keys unbound_check_defs) [''b'']"
    unfolding normalize_unbound by blast
  from ad kb have "ad = check_def ''foo'' [''b'']"
    by (auto simp: unbound_check_defs_def graph_backed_def_def check_def_def simple_assets_def_def)
  with dn have dn': "assets_def n = check_def ''foo'' [''b'']" by simp
  from cn bind_unbound have inn: "?ck \<in> node_check_keys n" by simp
  have b2: "snd (bind_check_keys (normalize_assets unbound_check_defs)) ?ck
         = Some (check_def ''foo'' [''b''])"
    unfolding normalize_unbound using bind_unbound by simp
  from gc none have unb: "assets_defs_by_check_key g ?ck = None" by simp
  have s1: "spec_key (AssetCheckSpec [''b''] ''fresh'') = ?ck" by (simp add: spec_key_def)
  have s2: "(''fresh'', AssetCheckSpec [''b''] ''fresh'')
          \<in> set (check_specs_by_output_name (check_def ''foo'' [''b'']))"
    by (simp add: check_def_def)
  have s3: "check_def ''foo'' [''b''] \<in> set unbound_check_defs"
    by (simp add: unbound_check_defs_def)
  have q1: "get_spec_for_asset_check g ?ck = Inr None"
    using unb by (simp add: get_spec_for_asset_check_def)
  have q2: "get_execution_set_asset_and_check_keys g (CK ?ck) = Inl KeyError"
    using unb by (simp add: get_execution_set_asset_and_check_keys_def)
  show ?thesis
    using g s1 s2 s3 n dn' inn b2 unb q1 q2 by blast
qed


text \<open>
  C3 (the code departs from the claim): of the three definitions of
  \<open>unbound_check_defs\<close>, the second is assigned the alias \<^verbatim>\<open>foo_2\<close> and then
  overwritten, in the dictionary of the op node names, by the definition whose node is
  named \<open>foo_2\<close>. Its check is declared, its target asset \<open>b\<close> has a node that holds
  the check key, and the first loop of \<^verbatim>\<open>from_assets\<close> binds the check key to the
  definition; but the mapping that the graph keeps, filled from the dictionary of the op
  node names, has no definition for it.
\<close>

theorem check_of_overwritten_definition_unbound:
  "\<exists>g n. from_assets op_methods unbound_check_defs = Inr g
     \<and> check_def ''foo'' [''b''] \<in> set unbound_check_defs
     \<and> (''fresh'', AssetCheckSpec [''b''] ''fresh'')
          \<in> set (check_specs_by_output_name (check_def ''foo'' [''b'']))
     \<and> spec_key (AssetCheckSpec [''b''] ''fresh'') = AssetCheckKey [''b''] ''fresh''
     \<and> asset_nodes_by_key g [''b''] = Some n
     \<and> assets_def n = check_def ''foo'' [''b'']
     \<and> AssetCheckKey [''b''] ''fresh'' \<in> node_check_keys n
     \<and> snd (bind_check_keys (normalize_assets unbound_check_defs)) (AssetCheckKey [''b''] ''fresh'')
         = Some (check_def ''foo'' [''b''])
     \<and> assets_defs_by_check_key g (AssetCheckKey [''b''] ''fresh'') = None
     \<and> get_spec_for_asset_check g (AssetCheckKey [''b''] ''fresh'') = Inr None"
  using unbound_check_graph by blast

text \<open>
  C2 (the code departs from the claim): the second definition of \<open>unbound_check_defs\<close>
  cannot be subset and produces two identifiers, the asset \<open>b\<close> and a check of it. The
  execution set of the asset key is the whole set of the two; for the check key, which the
  graph binds to no definition since the definition was overwritten in the dictionary of
  the op node names, the query raises a lookup error instead of returning the same set.
\<close>

theorem execution_set_of_overwritten_definition:
  "\<exists>g. from_assets op_methods unbound_check_defs = Inr g
     \<and> check_def ''foo'' [''b''] \<in> set unbound_check_defs
     \<and> \<not> can_subset (check_def ''foo'' [''b''])
     \<and> asset_and_check_keys (check_def ''foo'' [''b'']) =
           {AK [''b''], CK (AssetCheckKey [''b''] ''fresh'')}
     \<and> get_execution_set_asset_and_check_keys g (AK [''b'']) =
           Inr {AK [''b''], CK (AssetCheckKey [''b''] ''fresh'')}
     \<and> get_execution_set_asset_and_check_keys g (CK (AssetCheckKey [''b''] ''fresh'')) =
           Inl KeyError"
proof -
  from unbound_check_graph obtain g n where g: "from_assets op_methods unbound_check_defs = Inr g"
    and m: "check_def ''foo'' [''b''] \<in> set unbound_check_defs"
    and n: "asset_nodes_by_key g [''b''] = Some n"
    and d: "assets_def n = check_def ''foo'' [''b'']"
    and e: "get_execution_set_asset_and_check_keys g (CK (AssetCheckKey [''b''] ''fresh'')) =
              Inl KeyError"
    by blast
  have ns: "\<not> can_subset (check_def ''foo'' [''b''])"
    by (simp add: check_def_def graph_backed_def_def simple_assets_def_def)
  have all: "asset_and_check_keys (check_def ''foo'' [''b'']) =
               {AK [''b''], CK (AssetCheckKey [''b''] ''fresh'')}"
    by (auto simp: asset_and_check_keys_def check_def_def graph_backed_def_def
        simple_assets_def_def)
  have own: "owning_definition g (AK [''b'']) = Some (check_def ''foo'' [''b''])"
    using n d by (simp add: owning_definition_def)
  have card: "1 < card (asset_and_check_keys (check_def ''foo'' [''b'']))"
    by (simp add: all)
  from execution_set_of_bound_identifier [OF g own] ns card
  have "get_execution_set_asset_and_check_keys g (AK [''b'']) =
          Inr (asset_and_check_keys (check_def ''foo'' [''b'']))"
    by simp
  then have ea: "get_execution_set_asset_and_check_keys g (AK [''b'']) =
          Inr {AK [''b''], CK (AssetCheckKey [''b''] ''fresh'')}"
    by (simp only: all)
  show ?thesis using g m ns all ea e by blast
qed


end
